theory Spec2Isabelle
  imports Complex_Main "HOL-Library.AList" "HOL-Library.Sublist"
begin

section \<open>Python values\<close>

text \<open>
  The workflow graphs are what \<^verbatim>\<open>json.load\<close> returns: \<^verbatim>\<open>None\<close>, booleans, integers,
  floats, strings, lists and dictionaries with string keys. A dictionary keeps its insertion
  order, so it is an association list; \<open>map_of\<close> reads a key and \<open>AList.update\<close> writes one
  (in place when the key is present, at the end when it is new), as a Python \<^verbatim>\<open>dict\<close> does.

  A string is the sequence of its UTF-8 code units. The source only tests strings for equality
  and for ASCII or CJK substrings after \<^verbatim>\<open>str.lower()\<close>; on UTF-8 text these tests agree
  with the tests on code points.

  A float is a real number or one of the three special values; the source only compares
  floats with \<^verbatim>\<open>-1\<close> and truncates them with \<^verbatim>\<open>int()\<close>.
\<close>

datatype pyerr =
  AttributeError | TypeError | KeyError | ValueError | OverflowError | RecursionError

datatype pyfloat = Finite real | PosInf | NegInf | NaN

datatype json =
    JNull
  | JBool bool
  | JInt int
  | JFloat pyfloat
  | JStr string
  | JList "json list"
  | JObj "(string \<times> json) list"

type_synonym dict = "(string \<times> json) list"

text \<open>\<^verbatim>\<open>str.lower()\<close> on the ASCII letters.\<close>

definition lower_char :: "char \<Rightarrow> char" where
  "lower_char c =
     (case map_of (zip ''ABCDEFGHIJKLMNOPQRSTUVWXYZ'' ''abcdefghijklmnopqrstuvwxyz'') c of
        Some l \<Rightarrow> l
      | None \<Rightarrow> c)"

definition lower :: "string \<Rightarrow> string" where
  "lower s = map lower_char s"

text \<open>\<^verbatim>\<open>isinstance(v, (int, float))\<close>: a Python \<^verbatim>\<open>bool\<close> is an \<^verbatim>\<open>int\<close>.\<close>

fun is_number :: "json \<Rightarrow> bool" where
  "is_number (JInt i) = True"
| "is_number (JFloat f) = True"
| "is_number (JBool b) = True"
| "is_number v = False"

text \<open>\<^verbatim>\<open>v == n\<close> for an integer literal \<open>n\<close>.\<close>

fun py_eq_int :: "json \<Rightarrow> int \<Rightarrow> bool" where
  "py_eq_int (JInt i) n = (i = n)"
| "py_eq_int (JFloat (Finite r)) n = (r = of_int n)"
| "py_eq_int (JBool b) n = ((if b then 1 else 0) = n)"
| "py_eq_int v n = False"

text \<open>
  \<^verbatim>\<open>int(v)\<close> on a number: a float is truncated towards zero, \<^verbatim>\<open>nan\<close> raises ValueError
  and an infinity raises OverflowError. The source applies it to numbers only.
\<close>

fun py_int :: "json \<Rightarrow> pyerr + int" where
  "py_int (JInt i) = Inr i"
| "py_int (JBool b) = Inr (if b then 1 else 0)"
| "py_int (JFloat (Finite r)) = Inr (if 0 \<le> r then \<lfloor>r\<rfloor> else \<lceil>r\<rceil>)"
| "py_int (JFloat NaN) = Inl ValueError"
| "py_int (JFloat PosInf) = Inl OverflowError"
| "py_int (JFloat NegInf) = Inl OverflowError"
| "py_int v = Inl TypeError"

text \<open>
  \<^verbatim>\<open>"lit" in v\<close> for a string literal: a substring test on a string, a membership test on a
  list, a key test on a dictionary, and a TypeError on every other value.
\<close>

fun py_str_in :: "string \<Rightarrow> json \<Rightarrow> pyerr + bool" where
  "py_str_in lit (JStr s) = Inr (sublist lit s)"
| "py_str_in lit (JList xs) = Inr (JStr lit \<in> set xs)"
| "py_str_in lit (JObj kvs) = Inr (lit \<in> set (map fst kvs))"
| "py_str_in lit v = Inl TypeError"

text \<open>\<^verbatim>\<open>d.get(key, default)\<close> on a dictionary.\<close>

definition dict_get :: "dict \<Rightarrow> string \<Rightarrow> json \<Rightarrow> json" where
  "dict_get d key dflt = (case map_of d key of Some v \<Rightarrow> v | None \<Rightarrow> dflt)"

text \<open>A \<^verbatim>\<open>for\<close> loop whose body may raise: the first exception ends the loop.\<close>

fun for_each :: "('a \<Rightarrow> 's \<Rightarrow> pyerr + 's) \<Rightarrow> 'a list \<Rightarrow> 's \<Rightarrow> pyerr + 's" where
  "for_each body [] s = Inr s"
| "for_each body (x # xs) s =
     (case body x s of Inl err \<Rightarrow> Inl err | Inr s' \<Rightarrow> for_each body xs s')"

section \<open>The random source\<close>

text \<open>
  \<^verbatim>\<open>random.randint(a, b)\<close> reads the process-wide generator. The generator is an explicit
  stream of natural numbers; a draw maps the head of the stream into \<open>[a, b]\<close> and returns
  the rest of the stream.
\<close>

type_synonym entropy = "nat \<Rightarrow> nat"

definition randint :: "int \<Rightarrow> int \<Rightarrow> entropy \<Rightarrow> int \<times> entropy" where
  "randint a b e = (a + int (e 0) mod (b - a + 1), \<lambda>n. e (Suc n))"

section \<open>The copies\<close>

text \<open>
  \<^verbatim>\<open>json.dumps\<close> and \<^verbatim>\<open>json.loads\<close> write and read an \<^verbatim>\<open>int\<close> as its decimal text, which
  CPython refuses with ValueError when the text has more than
  \<^verbatim>\<open>sys.int_info.default_max_str_digits\<close> digits (4300; the repository does not change the
  limit). Both descend one level of recursion for every list or dictionary inside another
  and raise RecursionError at the recursion limit. \<open>room\<close> is the number of levels the call
  can still descend: the recursion limit less what the callers have used, a parameter of
  the model.
\<close>

definition int_max_str_digits :: nat where
  "int_max_str_digits = 4300"

definition int_too_long :: "int \<Rightarrow> bool" where
  "int_too_long i = (10 ^ int_max_str_digits \<le> \<bar>i\<bar>)"

fun first_error :: "pyerr option list \<Rightarrow> pyerr option" where
  "first_error [] = None"
| "first_error (None # rest) = first_error rest"
| "first_error (Some err # rest) = Some err"

text \<open>
  The exception of \<^verbatim>\<open>json.dumps\<close> on a value: the encoder walks the value in order and
  raises at the first \<^verbatim>\<open>int\<close> that is too long or the first container that is too deep.
\<close>

fun json_error :: "nat \<Rightarrow> json \<Rightarrow> pyerr option" where
  "json_error room (JInt i) = (if int_too_long i then Some ValueError else None)"
| "json_error room (JList xs) =
     (if room = 0 then Some RecursionError
      else first_error (map (json_error (room - 1)) xs))"
| "json_error room (JObj kvs) =
     (if room = 0 then Some RecursionError
      else first_error (map (\<lambda>kv. json_error (room - 1) (snd kv)) kvs))"
| "json_error room v = None"

text \<open>
  \<^verbatim>\<open>json.loads(json.dumps(workflow))\<close>: the value of \<^verbatim>\<open>workflow\<close> again when the encoder
  raises nothing (the decoder then reads back what the encoder wrote, at the same depth).
\<close>

definition json_roundtrip :: "nat \<Rightarrow> dict \<Rightarrow> pyerr + dict" where
  "json_roundtrip room d =
     (case json_error room (JObj d) of Some err \<Rightarrow> Inl err | None \<Rightarrow> Inr d)"

text \<open>
  \<^verbatim>\<open>copy.deepcopy\<close> recurses once for every level of nesting and raises RecursionError on a
  value nested deeper than the levels it can still descend; else it returns a copy with the
  value of its argument.
\<close>

fun nesting :: "json \<Rightarrow> nat" where
  "nesting (JList xs) = Suc (fold max (map nesting xs) 0)"
| "nesting (JObj kvs) = Suc (fold max (map (\<lambda>kv. nesting (snd kv)) kvs) 0)"
| "nesting v = 0"

definition deepcopy :: "nat \<Rightarrow> dict \<Rightarrow> pyerr + dict" where
  "deepcopy room d = (if nesting (JObj d) \<le> room then Inr d else Inl RecursionError)"

section \<open>The seed enforcer (comfyui\_client.py)\<close>

text \<open>\<^verbatim>\<open>"seed" in k.lower()\<close>\<close>

definition is_seed_key :: "string \<Rightarrow> bool" where
  "is_seed_key k = sublist ''seed'' (lower k)"

text \<open>
  The body of \<^verbatim>\<open>for key in seed_keys\<close>. The loop state is the \<^verbatim>\<open>inputs\<close> dictionary
  (mutated in place), the random source, \<^verbatim>\<open>ksampler_seed\<close> and \<^verbatim>\<open>main_seed\<close>.
\<close>

type_synonym seed_acc = "dict \<times> entropy \<times> int option \<times> int option"

definition enforce_seed_key :: "json \<Rightarrow> string \<Rightarrow> seed_acc \<Rightarrow> pyerr + seed_acc" where
  "enforce_seed_key class_type key acc =
     (case acc of (inputs, e, ksampler_seed, main_seed) \<Rightarrow>
      (case map_of inputs key of
         None \<Rightarrow> Inl KeyError
       | Some current_seed \<Rightarrow>
          (case (if \<not> is_number current_seed \<or> py_eq_int current_seed (- 1)
                 then (case randint 1 (2 ^ 63 - 1) e of
                         (r, e') \<Rightarrow> (AList.update key (JInt r) inputs, JInt r, e'))
                 else (inputs, current_seed, e)) of
             (inputs', v, e') \<Rightarrow>
              (case py_str_in ''Sampler'' class_type of
                 Inl err \<Rightarrow> Inl err
               | Inr True \<Rightarrow>
                  (case py_int v of
                     Inl err \<Rightarrow> Inl err
                   | Inr i \<Rightarrow> Inr (inputs', e', Some i, main_seed))
               | Inr False \<Rightarrow>
                  (if main_seed = None
                   then (case py_int v of
                           Inl err \<Rightarrow> Inl err
                         | Inr i \<Rightarrow> Inr (inputs', e', ksampler_seed, Some i))
                   else Inr (inputs', e', ksampler_seed, main_seed))))))"

text \<open>
  \<^verbatim>\<open>if "control_after_generate" in inputs: ...\<close> on a dictionary.
\<close>

definition fix_control :: "dict \<Rightarrow> dict" where
  "fix_control inputs =
     (case map_of inputs ''control_after_generate'' of
        None \<Rightarrow> inputs
      | Some v \<Rightarrow>
          (if v \<in> set [JStr ''randomize'', JStr ''increment'', JStr ''decrement'']
           then AList.update ''control_after_generate'' (JStr ''fixed'') inputs
           else inputs))"

fun is_str :: "json \<Rightarrow> bool" where
  "is_str (JStr s) = True"
| "is_str v = False"

text \<open>
  The body of \<^verbatim>\<open>for node_data in workflow_copy.values()\<close>. A node that is no dictionary or
  has no \<^verbatim>\<open>inputs\<close> is skipped. \<^verbatim>\<open>inputs\<close> is meant to be a dictionary; on a string the
  comprehension walks the characters (none contains \<^verbatim>\<open>seed\<close>), on a list it calls
  \<^verbatim>\<open>.lower()\<close> on every element, and indexing either by a string raises TypeError.
\<close>

type_synonym node_acc = "entropy \<times> int option \<times> int option"

definition enforce_node :: "json \<Rightarrow> node_acc \<Rightarrow> pyerr + (json \<times> node_acc)" where
  "enforce_node node_data acc =
     (case acc of (e, ksampler_seed, main_seed) \<Rightarrow>
      (case node_data of
         JObj attrs \<Rightarrow>
          (case map_of attrs ''inputs'' of
             None \<Rightarrow> Inr (node_data, acc)
           | Some (JObj inputs) \<Rightarrow>
              (let class_type = dict_get attrs ''class_type'' (JStr '''');
                   seed_keys = filter is_seed_key (map fst inputs)
               in case for_each (enforce_seed_key class_type) seed_keys
                         (inputs, e, ksampler_seed, main_seed) of
                    Inl err \<Rightarrow> Inl err
                  | Inr (inputs', acc') \<Rightarrow>
                      Inr (JObj (AList.update ''inputs'' (JObj (fix_control inputs')) attrs),
                           acc'))
           | Some (JStr s) \<Rightarrow>
              (if sublist ''control_after_generate'' s then Inl TypeError
               else Inr (node_data, acc))
           | Some (JList xs) \<Rightarrow>
              (if \<not> list_all is_str xs then Inl AttributeError
               else if list_ex (\<lambda>x. case x of JStr k \<Rightarrow> is_seed_key k | _ \<Rightarrow> False) xs
               then Inl TypeError
               else if JStr ''control_after_generate'' \<in> set xs then Inl TypeError
               else Inr (node_data, acc))
           | Some _ \<Rightarrow> Inl TypeError)
       | _ \<Rightarrow> Inr (node_data, acc)))"

fun enforce_nodes :: "dict \<Rightarrow> node_acc \<Rightarrow> pyerr + (dict \<times> node_acc)" where
  "enforce_nodes [] acc = Inr ([], acc)"
| "enforce_nodes ((node_id, node_data) # rest) acc =
     (case enforce_node node_data acc of
        Inl err \<Rightarrow> Inl err
      | Inr (node', acc') \<Rightarrow>
          (case enforce_nodes rest acc' of
             Inl err \<Rightarrow> Inl err
           | Inr (rest', acc'') \<Rightarrow> Inr ((node_id, node') # rest', acc'')))"

text \<open>\<^verbatim>\<open>ksampler_seed or main_seed or 0\<close>: \<^verbatim>\<open>None\<close> and \<^verbatim>\<open>0\<close> are both falsy.\<close>

definition final_seed :: "int option \<Rightarrow> int option \<Rightarrow> int" where
  "final_seed ksampler_seed main_seed =
     (case ksampler_seed of
        Some k \<Rightarrow> (if k \<noteq> 0 then k else (case main_seed of Some m \<Rightarrow> m | None \<Rightarrow> 0))
      | None \<Rightarrow> (case main_seed of Some m \<Rightarrow> m | None \<Rightarrow> 0))"

text \<open>
  \<^verbatim>\<open>_enforce_deterministic_workflow\<close>. It works on the copy that
  \<^verbatim>\<open>json.loads(json.dumps(workflow))\<close> makes, and raises what the copy raises; it returns the
  fixed copy, the reported seed and the random source it leaves behind. \<open>room\<close> is the
  depth the JSON round trip can reach at the call.
\<close>

definition enforce_deterministic_workflow ::
  "nat \<Rightarrow> dict \<Rightarrow> entropy \<Rightarrow> pyerr + (dict \<times> int \<times> entropy)" where
  "enforce_deterministic_workflow room workflow e =
     (case json_roundtrip room workflow of
        Inl err \<Rightarrow> Inl err
      | Inr workflow_copy \<Rightarrow>
          (case enforce_nodes workflow_copy (e, None, None) of
             Inl err \<Rightarrow> Inl err
           | Inr (fixed_copy, e', ksampler_seed, main_seed) \<Rightarrow>
               Inr (fixed_copy, final_seed ksampler_seed main_seed, e')))"

section \<open>More Python operations\<close>

text \<open>
  \<^verbatim>\<open>str(v)\<close>, which the tracer applies to the source of a link. A string is itself and an
  integer is its decimal numeral; Python's rendering of a float, a list or a dictionary is a
  parameter \<open>repr\<close> of the model.
\<close>

definition digit_char :: "nat \<Rightarrow> char" where
  "digit_char d = ''0123456789'' ! d"

fun show_nat :: "nat \<Rightarrow> string" where
  "show_nat n = (if n < 10 then [digit_char n] else show_nat (n div 10) @ [digit_char (n mod 10)])"

definition show_int :: "int \<Rightarrow> string" where
  "show_int i = (if i < 0 then CHR ''-'' # show_nat (nat (- i)) else show_nat (nat i))"

fun py_str :: "(json \<Rightarrow> string) \<Rightarrow> json \<Rightarrow> string" where
  "py_str repr (JStr s) = s"
| "py_str repr JNull = ''None''"
| "py_str repr (JBool b) = (if b then ''True'' else ''False'')"
| "py_str repr (JInt i) = show_int i"
| "py_str repr v = repr v"

text \<open>
  Truthiness (\<^verbatim>\<open>if v\<close>), \<^verbatim>\<open>v[key]\<close> with a string key, and the elements a \<^verbatim>\<open>for\<close> loop
  draws from a value.
\<close>

fun py_truthy :: "json \<Rightarrow> bool" where
  "py_truthy JNull = False"
| "py_truthy (JBool b) = b"
| "py_truthy (JInt i) = (i \<noteq> 0)"
| "py_truthy (JFloat f) = (f \<noteq> Finite 0)"
| "py_truthy (JStr s) = (s \<noteq> [])"
| "py_truthy (JList xs) = (xs \<noteq> [])"
| "py_truthy (JObj kvs) = (kvs \<noteq> [])"

fun py_getitem :: "json \<Rightarrow> string \<Rightarrow> pyerr + json" where
  "py_getitem (JObj kvs) key = (case map_of kvs key of Some v \<Rightarrow> Inr v | None \<Rightarrow> Inl KeyError)"
| "py_getitem v key = Inl TypeError"

fun py_iter :: "json \<Rightarrow> pyerr + json list" where
  "py_iter (JList xs) = Inr xs"
| "py_iter (JObj kvs) = Inr (map (\<lambda>kv. JStr (fst kv)) kvs)"
| "py_iter (JStr s) = Inr (map (\<lambda>c. JStr [c]) s)"
| "py_iter v = Inl TypeError"

section \<open>The link tracer and the graph classifier (workflow\_parser.py)\<close>

text \<open>
  The dataclass \<^verbatim>\<open>WorkflowNodeMapping\<close> and its default value.
\<close>

record workflow_node_mapping =
  positive_prompt_node :: "string option"
  negative_prompt_node :: "string option"
  latent_image_node :: "string option"
  sampler_node :: "string option"
  sampler_nodes :: "string list"
  load_image_node :: "string option"
  output_node :: "string option"
  positive_prompt_field :: string
  negative_prompt_field :: string
  has_tensorrt :: bool

definition default_mapping :: workflow_node_mapping where
  "default_mapping =
     \<lparr>positive_prompt_node = None, negative_prompt_node = None, latent_image_node = None,
      sampler_node = None, sampler_nodes = [], load_image_node = None, output_node = None,
      positive_prompt_field = ''text'', negative_prompt_field = ''text'',
      has_tensorrt = False\<rparr>"

text \<open>
  Truthiness of an optional string (\<^verbatim>\<open>if mapping.sampler_node\<close>,
  \<^verbatim>\<open>if input_image_filename\<close>): \<^verbatim>\<open>None\<close> and the empty string are falsy.
\<close>

definition truthy_id :: "string option \<Rightarrow> bool" where
  "truthy_id s = (case s of None \<Rightarrow> False | Some t \<Rightarrow> t \<noteq> [])"

text \<open>
  The class-type taxonomies, and \<^verbatim>\<open>class_type in TYPES\<close>: only a string is equal to a
  string of the list.
\<close>

definition CLIP_TEXT_ENCODE_TYPES :: "string list" where
  "CLIP_TEXT_ENCODE_TYPES =
     [''CLIPTextEncode'', ''CLIPTextEncodeSDXL'', ''AdvancedCLIPTextEncode'',
      ''CLIPTextEncodeSD3'', ''BNK_CLIPTextEncodeAdvanced'']"

definition LATENT_IMAGE_TYPES :: "string list" where
  "LATENT_IMAGE_TYPES = [''EmptyLatentImage'', ''EmptySD3LatentImage'', ''EmptyLatentImagePresets'']"

definition SAMPLER_TYPES :: "string list" where
  "SAMPLER_TYPES =
     [''KSampler'', ''KSamplerAdvanced'', ''SamplerCustom'', ''SamplerCustomAdvanced'',
      ''KSampler (Efficient)'', ''KSamplerSelect'']"

definition LOAD_IMAGE_TYPES :: "string list" where
  "LOAD_IMAGE_TYPES = [''LoadImage'', ''LoadImageMask'', ''LoadImageFromUrl'']"

definition OUTPUT_TYPES :: "string list" where
  "OUTPUT_TYPES = [''PreviewImage'', ''SaveImage'', ''SaveImageWebsocket'']"

definition TRT_LOADER_TYPES :: "string list" where
  "TRT_LOADER_TYPES =
     [''TensorRT Loader'', ''TensorRTLoader'', ''TensorRTLoaderSD3'', ''TensorRTLoaderFlux'']"

definition PASSTHROUGH_TYPES :: "string list" where
  "PASSTHROUGH_TYPES = [''Reroute'', ''RerouteTextForCLIPTextEncodeForSDXL'']"

definition in_types :: "json \<Rightarrow> string list \<Rightarrow> bool" where
  "in_types class_type types = (case class_type of JStr s \<Rightarrow> s \<in> set types | _ \<Rightarrow> False)"

text \<open>
  \<^verbatim>\<open>isinstance(value, list) and len(value) >= 2\<close>
\<close>

fun is_link :: "json \<Rightarrow> bool" where
  "is_link (JList xs) = (2 \<le> length xs)"
| "is_link v = False"

text \<open>
  \<^verbatim>\<open>_trace_link_source\<close>. A reference that is no list or is empty, and a depth budget that
  is used up, give \<^verbatim>\<open>None\<close>; a source node that is no dictionary, or a passthrough node
  whose \<^verbatim>\<open>inputs\<close> is no dictionary, raises AttributeError. A passthrough node is followed
  through the first of its inputs that is a list of two or more elements.
\<close>

function trace_link_source ::
  "(json \<Rightarrow> string) \<Rightarrow> json \<Rightarrow> dict \<Rightarrow> string list \<Rightarrow> int \<Rightarrow> pyerr + string option" where
  "trace_link_source repr link_ref workflow_data target_types max_depth =
     (if max_depth \<le> 0 then Inr None
      else case link_ref of
        JList (first # rest) \<Rightarrow>
          (let source_id = py_str repr first in
           case map_of workflow_data source_id of
             None \<Rightarrow> Inr None
           | Some (JObj source_node) \<Rightarrow>
               (let source_class = dict_get source_node ''class_type'' (JStr '''') in
                if in_types source_class target_types then Inr (Some source_id)
                else if in_types source_class PASSTHROUGH_TYPES
                then (case dict_get source_node ''inputs'' (JObj []) of
                        JObj inputs \<Rightarrow>
                          (case find is_link (map snd inputs) of
                             Some v \<Rightarrow>
                               trace_link_source repr v workflow_data target_types (max_depth - 1)
                           | None \<Rightarrow> Inr (Some source_id))
                      | _ \<Rightarrow> Inl AttributeError)
                else Inr (Some source_id))
           | Some _ \<Rightarrow> Inl AttributeError)
      | _ \<Rightarrow> Inr None)"
  by pat_completeness auto
termination
  by (relation "measure (\<lambda>(repr, link_ref, workflow_data, target_types, max_depth). nat max_depth)")
     auto

text \<open>
  The body of \<^verbatim>\<open>for node_id, node_data in workflow_data.items()\<close> in
  \<^verbatim>\<open>_analyze_workflow_nodes\<close>; the loop state is the mapping and \<^verbatim>\<open>clip_text_nodes\<close>.
\<close>

definition analyze_node ::
  "string \<times> json \<Rightarrow> workflow_node_mapping \<times> (string \<times> dict) list \<Rightarrow>
   workflow_node_mapping \<times> (string \<times> dict) list" where
  "analyze_node entry acc =
     (case entry of (node_id, node) \<Rightarrow>
      (case acc of (mapping, clip_text_nodes) \<Rightarrow>
       (case node of
          JObj node_data \<Rightarrow>
            (let class_type = dict_get node_data ''class_type'' (JStr '''');
                 mapping = (if in_types class_type TRT_LOADER_TYPES
                            then mapping\<lparr>has_tensorrt := True\<rparr> else mapping)
             in if in_types class_type CLIP_TEXT_ENCODE_TYPES
                then (mapping, clip_text_nodes @ [(node_id, node_data)])
                else if in_types class_type LATENT_IMAGE_TYPES
                then (mapping\<lparr>latent_image_node := Some node_id\<rparr>, clip_text_nodes)
                else if in_types class_type SAMPLER_TYPES
                then (mapping\<lparr>sampler_nodes := sampler_nodes mapping @ [node_id],
                              sampler_node := (if \<not> truthy_id (sampler_node mapping)
                                               then Some node_id else sampler_node mapping)\<rparr>,
                      clip_text_nodes)
                else if in_types class_type LOAD_IMAGE_TYPES
                then (mapping\<lparr>load_image_node := Some node_id\<rparr>, clip_text_nodes)
                else if in_types class_type OUTPUT_TYPES
                then (mapping\<lparr>output_node := Some node_id\<rparr>, clip_text_nodes)
                else (mapping, clip_text_nodes))
        | _ \<Rightarrow> acc)))"

text \<open>
  One polarity of the link step of \<^verbatim>\<open>_classify_clip_nodes\<close> (lines 183 to 188, and again
  190 to 195): the traced source when it is a candidate, else the direct source of the
  reference when that is a candidate, else the polarity as it was.
\<close>

definition link_polarity ::
  "(json \<Rightarrow> string) \<Rightarrow> json \<Rightarrow> dict \<Rightarrow> string set \<Rightarrow> string option \<Rightarrow>
   pyerr + string option" where
  "link_polarity repr ref workflow_data clip_node_ids current =
     (case ref of
        JList (first # rest) \<Rightarrow>
          (case trace_link_source repr ref workflow_data CLIP_TEXT_ENCODE_TYPES 10 of
             Inl err \<Rightarrow> Inl err
           | Inr traced \<Rightarrow>
               (if truthy_id traced \<and> the traced \<in> clip_node_ids then Inr traced
                else if py_str repr first \<in> clip_node_ids then Inr (Some (py_str repr first))
                else Inr current))
      | _ \<Rightarrow> Inr current)"

text \<open>
  The link step: the \<^verbatim>\<open>positive\<close> and \<^verbatim>\<open>negative\<close> inputs of the primary sampler.
\<close>

definition by_links ::
  "(json \<Rightarrow> string) \<Rightarrow> (string \<times> dict) list \<Rightarrow> workflow_node_mapping \<Rightarrow> dict \<Rightarrow>
   pyerr + workflow_node_mapping" where
  "by_links repr clip_text_nodes mapping workflow_data =
     (let clip_node_ids = set (map fst clip_text_nodes)
      in if truthy_id (sampler_node mapping) \<and> the (sampler_node mapping) \<in> set (map fst workflow_data)
         then (case map_of workflow_data (the (sampler_node mapping)) of
                 Some (JObj sampler) \<Rightarrow>
                   (case dict_get sampler ''inputs'' (JObj []) of
                      JObj sampler_inputs \<Rightarrow>
                        (let positive_ref = dict_get sampler_inputs ''positive'' (JList []);
                             negative_ref = dict_get sampler_inputs ''negative'' (JList [])
                         in case link_polarity repr positive_ref workflow_data clip_node_ids
                                   (positive_prompt_node mapping) of
                              Inl err \<Rightarrow> Inl err
                            | Inr positive \<Rightarrow>
                                (case link_polarity repr negative_ref workflow_data clip_node_ids
                                        (negative_prompt_node mapping) of
                                   Inl err \<Rightarrow> Inl err
                                 | Inr negative \<Rightarrow>
                                     Inr (mapping\<lparr>positive_prompt_node := positive,
                                                  negative_prompt_node := negative\<rparr>)))
                    | _ \<Rightarrow> Inl AttributeError)
               | _ \<Rightarrow> Inl AttributeError)
         else Inr mapping)"

text \<open>
  \<^verbatim>\<open>node_data.get("_meta", {}).get("title", "").lower()\<close> and
  \<^verbatim>\<open>node_data.get("inputs", {}).get("text", "").lower()\<close>: AttributeError when \<^verbatim>\<open>_meta\<close> or
  \<^verbatim>\<open>inputs\<close> is no dictionary, or the title or the text is no string.
\<close>

definition node_title :: "dict \<Rightarrow> pyerr + string" where
  "node_title node_data =
     (case dict_get node_data ''_meta'' (JObj []) of
        JObj meta \<Rightarrow>
          (case dict_get meta ''title'' (JStr '''') of
             JStr title \<Rightarrow> Inr (lower title)
           | _ \<Rightarrow> Inl AttributeError)
      | _ \<Rightarrow> Inl AttributeError)"

definition node_text :: "dict \<Rightarrow> pyerr + string" where
  "node_text node_data =
     (case dict_get node_data ''inputs'' (JObj []) of
        JObj inputs \<Rightarrow>
          (case dict_get inputs ''text'' (JStr '''') of
             JStr text \<Rightarrow> Inr (lower text)
           | _ \<Rightarrow> Inl AttributeError)
      | _ \<Rightarrow> Inl AttributeError)"

text \<open>
  \<^verbatim>\<open>node_id in (mapping.positive_prompt_node, mapping.negative_prompt_node)\<close>
\<close>

definition assigned :: "string \<Rightarrow> workflow_node_mapping \<Rightarrow> bool" where
  "assigned node_id mapping =
     (Some node_id = positive_prompt_node mapping \<or> Some node_id = negative_prompt_node mapping)"

text \<open>
  The bodies of the title loop, the keyword loop and the order loop. The two CJK markers
  of the title loop are written as their UTF-8 code units.
\<close>

definition by_title ::
  "string \<times> dict \<Rightarrow> workflow_node_mapping \<Rightarrow> pyerr + workflow_node_mapping" where
  "by_title entry mapping =
     (case entry of (node_id, node_data) \<Rightarrow>
      if assigned node_id mapping then Inr mapping
      else case node_title node_data of
             Inl err \<Rightarrow> Inl err
           | Inr title \<Rightarrow>
               (if \<not> truthy_id (negative_prompt_node mapping) \<and>
                   (sublist ''negative'' title \<or> sublist [CHR 0xE8, CHR 0xB4, CHR 0x9F] title)
                then Inr (mapping\<lparr>negative_prompt_node := Some node_id\<rparr>)
                else if \<not> truthy_id (positive_prompt_node mapping) \<and>
                   (sublist ''positive'' title \<or> sublist [CHR 0xE6, CHR 0xAD, CHR 0xA3] title)
                then Inr (mapping\<lparr>positive_prompt_node := Some node_id\<rparr>)
                else Inr mapping))"

definition negative_keywords :: "string list" where
  "negative_keywords = [''worst quality'', ''low quality'', ''bad anatomy'', ''ugly'']"

definition positive_keywords :: "string list" where
  "positive_keywords = [''masterpiece'', ''best quality'', ''beautiful'', ''detailed'']"

definition by_text ::
  "string \<times> dict \<Rightarrow> workflow_node_mapping \<Rightarrow> pyerr + workflow_node_mapping" where
  "by_text entry mapping =
     (case entry of (node_id, node_data) \<Rightarrow>
      if assigned node_id mapping then Inr mapping
      else case node_text node_data of
             Inl err \<Rightarrow> Inl err
           | Inr text \<Rightarrow>
               (if \<not> truthy_id (negative_prompt_node mapping) \<and>
                   list_ex (\<lambda>kw. sublist kw text) negative_keywords
                then Inr (mapping\<lparr>negative_prompt_node := Some node_id\<rparr>)
                else if \<not> truthy_id (positive_prompt_node mapping) \<and>
                   list_ex (\<lambda>kw. sublist kw text) positive_keywords
                then Inr (mapping\<lparr>positive_prompt_node := Some node_id\<rparr>)
                else Inr mapping))"

definition by_order ::
  "string \<times> dict \<Rightarrow> workflow_node_mapping \<Rightarrow> pyerr + workflow_node_mapping" where
  "by_order entry mapping =
     (case entry of (node_id, node_data) \<Rightarrow>
      if assigned node_id mapping then Inr mapping
      else if \<not> truthy_id (positive_prompt_node mapping)
      then Inr (mapping\<lparr>positive_prompt_node := Some node_id\<rparr>)
      else if \<not> truthy_id (negative_prompt_node mapping)
      then Inr (mapping\<lparr>negative_prompt_node := Some node_id\<rparr>)
      else Inr mapping)"

text \<open>
  \<^verbatim>\<open>_classify_clip_nodes\<close> and \<^verbatim>\<open>_analyze_workflow_nodes\<close>. The latter is applied to what
  \<^verbatim>\<open>json.load\<close> returned; \<^verbatim>\<open>.items()\<close> raises AttributeError on a value that is no
  dictionary.
\<close>

definition classify_clip_nodes ::
  "(json \<Rightarrow> string) \<Rightarrow> (string \<times> dict) list \<Rightarrow> workflow_node_mapping \<Rightarrow> dict \<Rightarrow>
   pyerr + workflow_node_mapping" where
  "classify_clip_nodes repr clip_text_nodes mapping workflow_data =
     (case clip_text_nodes of
        [] \<Rightarrow> Inr mapping
      | [only] \<Rightarrow> Inr (mapping\<lparr>positive_prompt_node := Some (fst only)\<rparr>)
      | _ \<Rightarrow>
          (case by_links repr clip_text_nodes mapping workflow_data of
             Inl err \<Rightarrow> Inl err
           | Inr linked \<Rightarrow>
               (if truthy_id (positive_prompt_node linked) \<and>
                   truthy_id (negative_prompt_node linked)
                then Inr linked
                else case for_each by_title clip_text_nodes linked of
                       Inl err \<Rightarrow> Inl err
                     | Inr titled \<Rightarrow>
                         (case for_each by_text clip_text_nodes titled of
                            Inl err \<Rightarrow> Inl err
                          | Inr texted \<Rightarrow> for_each by_order clip_text_nodes texted))))"

definition analyze_workflow_nodes :: "(json \<Rightarrow> string) \<Rightarrow> json \<Rightarrow> pyerr + workflow_node_mapping" where
  "analyze_workflow_nodes repr wjson =
     (case wjson of
        JObj workflow_data \<Rightarrow>
          (case fold analyze_node workflow_data (default_mapping, []) of
             (mapping, clip_text_nodes) \<Rightarrow> classify_clip_nodes repr clip_text_nodes mapping workflow_data)
      | _ \<Rightarrow> Inl AttributeError)"

section \<open>The workflow registry and the preparer (workflow\_parser.py)\<close>

text \<open>
  The dataclass \<^verbatim>\<open>WorkflowInfo\<close>. The graph of a template is a Python object that the
  registry and every caller share by reference, so \<^verbatim>\<open>workflow_data\<close> is an address into a
  store of graph objects.
\<close>

record workflow_info =
  name :: string
  file_path :: string
  workflow_data :: nat
  node_mapping :: workflow_node_mapping
  description :: string

text \<open>
  The part of the process state that \<^verbatim>\<open>prepare_workflow\<close> reads and writes: the store of
  graph objects with its allocation counter, the registry \<^verbatim>\<open>self.workflows\<close>, the random
  source, and the depth \<^verbatim>\<open>copy.deepcopy\<close> can reach at the call. Every graph object is a
  tree that \<^verbatim>\<open>json.load\<close> or \<^verbatim>\<open>copy.deepcopy\<close> built, so two addresses never share a node,
  and a write through one address changes that cell only.
\<close>

record world =
  heap :: "nat \<Rightarrow> dict"
  next_free :: nat
  workflows :: "int \<Rightarrow> workflow_info option"
  rng :: entropy
  deepcopy_room :: nat

text \<open>
  \<^verbatim>\<open>workflow[node_id]["inputs"][field] = v\<close>: KeyError when the node has no \<^verbatim>\<open>inputs\<close>,
  TypeError when the node or its \<^verbatim>\<open>inputs\<close> is no dictionary.
\<close>

definition set_node_input :: "string \<Rightarrow> string \<Rightarrow> json \<Rightarrow> dict \<Rightarrow> pyerr + dict" where
  "set_node_input node_id field v workflow =
     (case map_of workflow node_id of
        None \<Rightarrow> Inl KeyError
      | Some (JObj attrs) \<Rightarrow>
          (case map_of attrs ''inputs'' of
             None \<Rightarrow> Inl KeyError
           | Some (JObj inputs) \<Rightarrow>
               Inr (AList.update node_id
                     (JObj (AList.update ''inputs'' (JObj (AList.update field v inputs)) attrs))
                     workflow)
           | Some _ \<Rightarrow> Inl TypeError)
      | Some _ \<Rightarrow> Inl TypeError)"

text \<open>
  The statements of \<^verbatim>\<open>prepare_workflow\<close> that write into the copy: the two prompt writes,
  the body of \<^verbatim>\<open>for sampler_id in mapping.sampler_nodes\<close>, and the input image write.
\<close>

definition prompt_step :: "string option \<Rightarrow> string \<Rightarrow> string \<Rightarrow> dict \<Rightarrow> pyerr + dict" where
  "prompt_step prompt_node prompt_field prompt workflow =
     (if truthy_id prompt_node \<and> the prompt_node \<in> set (map fst workflow)
      then set_node_input (the prompt_node) prompt_field (JStr prompt) workflow
      else Inr workflow)"

definition seed_step :: "int \<Rightarrow> string \<Rightarrow> dict \<Rightarrow> pyerr + dict" where
  "seed_step actual_seed sampler_id workflow =
     (case map_of workflow sampler_id of
        None \<Rightarrow> Inr workflow
      | Some node \<Rightarrow>
          (case py_str_in ''inputs'' node of
             Inl err \<Rightarrow> Inl err
           | Inr present \<Rightarrow>
               (case node of
                  JObj attrs \<Rightarrow>
                    set_node_input sampler_id ''seed'' (JInt actual_seed)
                      (if present then workflow
                       else AList.update sampler_id
                              (JObj (AList.update ''inputs'' (JObj []) attrs)) workflow)
                | _ \<Rightarrow> Inl TypeError)))"

definition image_step :: "string option \<Rightarrow> string option \<Rightarrow> dict \<Rightarrow> pyerr + dict" where
  "image_step input_image_filename load_node workflow =
     (if truthy_id input_image_filename \<and> truthy_id load_node
      then (if the load_node \<in> set (map fst workflow)
            then set_node_input (the load_node) ''image'' (JStr (the input_image_filename)) workflow
            else Inr workflow)
      else Inr workflow)"

text \<open>
  The statements run in order on the copy; an exception stops the run and leaves the copy
  as the statements before it wrote it.
\<close>

fun run_steps :: "(dict \<Rightarrow> pyerr + dict) list \<Rightarrow> dict \<Rightarrow> pyerr option \<times> dict" where
  "run_steps [] d = (None, d)"
| "run_steps (step # steps) d =
     (case step d of Inl err \<Rightarrow> (Some err, d) | Inr d' \<Rightarrow> run_steps steps d')"

text \<open>
  \<^verbatim>\<open>prepare_workflow\<close>. \<^verbatim>\<open>copy.deepcopy\<close> raises on a template that is nested too deep
  for it, and else allocates a fresh graph object with the value of the template; the
  function returns the address of the copy, the seed and the negative prompt, or raises.
  The seed is drawn after the two prompt writes, as in the source.
\<close>

definition prepare_workflow ::
  "world \<Rightarrow> int \<Rightarrow> string \<Rightarrow> string \<Rightarrow> int option \<Rightarrow> string option \<Rightarrow>
   (pyerr + (nat option \<times> int option \<times> string option)) \<times> world" where
  "prepare_workflow w workflow_index positive_prompt negative_prompt seed input_image_filename =
     (case workflows w workflow_index of
        None \<Rightarrow> (Inr (None, None, None), w)
      | Some workflow_info \<Rightarrow>
          (case deepcopy (deepcopy_room w) (heap w (workflow_data workflow_info)) of
             Inl err \<Rightarrow> (Inl err, w)
           | Inr copied \<Rightarrow>
          (let workflow = next_free w;
               w1 = w\<lparr>heap := (heap w)(workflow := copied), next_free := Suc workflow\<rparr>;
               mapping = node_mapping workflow_info
           in case run_steps
                     [prompt_step (positive_prompt_node mapping) (positive_prompt_field mapping)
                        positive_prompt,
                      prompt_step (negative_prompt_node mapping) (negative_prompt_field mapping)
                        negative_prompt]
                     (heap w1 workflow) of
                (Some err, d) \<Rightarrow> (Inl err, w1\<lparr>heap := (heap w1)(workflow := d)\<rparr>)
              | (None, d) \<Rightarrow>
                  (case (case seed of
                           Some s \<Rightarrow> (s, rng w1)
                         | None \<Rightarrow> randint 1 (2 ^ 63 - 1) (rng w1)) of
                     (actual_seed, e') \<Rightarrow>
                       (case run_steps
                               (map (seed_step actual_seed) (sampler_nodes mapping) @
                                [image_step input_image_filename (load_image_node mapping)])
                               d of
                          (Some err, d') \<Rightarrow>
                            (Inl err, w1\<lparr>heap := (heap w1)(workflow := d'), rng := e'\<rparr>)
                        | (None, d') \<Rightarrow>
                            (Inr (Some workflow, Some actual_seed, Some negative_prompt),
                             w1\<lparr>heap := (heap w1)(workflow := d'), rng := e'\<rparr>))))))"

section \<open>The job orchestrator (comfyui\_client.py)\<close>

text \<open>
  The status messages of the client: \<^verbatim>\<open>SubmitFailed\<close> is the literal of line 166,
  \<^verbatim>\<open>ExecTimeout n\<close> the message of line 141 for \<open>n\<close> seconds, \<^verbatim>\<open>ExecError\<close> the literal of
  line 152, \<^verbatim>\<open>ExecDone\<close> of line 153, \<^verbatim>\<open>GenerateOK\<close> of line 204 and \<^verbatim>\<open>NoOutputImage\<close> of
  line 206. The six texts are pairwise different.
\<close>

datatype status_msg =
    SubmitFailed
  | ExecTimeout int
  | ExecError
  | ExecDone
  | GenerateOK
  | NoOutputImage

text \<open>
  One round of the poll loop of \<^verbatim>\<open>wait_for_completion\<close> as the environment decides it:
  whether the elapsed time is over the timeout, and what \<^verbatim>\<open>get_history\<close> returns.
\<close>

datatype poll = Poll (timed_out: bool) (history: "json option")

text \<open>
  What the loop makes of the history record of the prompt: nothing while it has no
  \<^verbatim>\<open>outputs\<close>, an execution error when its status says \<^verbatim>\<open>error\<close>, else completion.
\<close>

definition history_outcome :: "json \<Rightarrow> (pyerr + bool \<times> json option \<times> status_msg) option" where
  "history_outcome prompt_history =
     (case py_str_in ''outputs'' prompt_history of
        Inl err \<Rightarrow> Some (Inl err)
      | Inr False \<Rightarrow> None
      | Inr True \<Rightarrow>
          (case py_str_in ''status'' prompt_history of
             Inl err \<Rightarrow> Some (Inl err)
           | Inr False \<Rightarrow> Some (Inr (True, Some prompt_history, ExecDone))
           | Inr True \<Rightarrow>
               (case py_getitem prompt_history ''status'' of
                  Inl err \<Rightarrow> Some (Inl err)
                | Inr (JObj status) \<Rightarrow>
                    (if dict_get status ''status_str'' JNull = JStr ''error''
                     then Some (Inr (False, None, ExecError))
                     else Some (Inr (True, Some prompt_history, ExecDone)))
                | Inr _ \<Rightarrow> Some (Inl AttributeError))))"

text \<open>
  \<^verbatim>\<open>wait_for_completion\<close> on the rounds the environment provides. The result is \<open>None\<close>
  when the rounds end before the loop returns. The cancellation on a timeout acts on the
  backend only.
\<close>

fun wait_for_completion ::
  "string \<Rightarrow> int \<Rightarrow> poll list \<Rightarrow> (pyerr + bool \<times> json option \<times> status_msg) option" where
  "wait_for_completion prompt_id timeout_seconds [] = None"
| "wait_for_completion prompt_id timeout_seconds (Poll late hist # polls) =
     (if late then Some (Inr (False, None, ExecTimeout timeout_seconds))
      else case hist of
        None \<Rightarrow> wait_for_completion prompt_id timeout_seconds polls
      | Some h \<Rightarrow>
          (if \<not> py_truthy h then wait_for_completion prompt_id timeout_seconds polls
           else case py_str_in prompt_id h of
                  Inl err \<Rightarrow> Some (Inl err)
                | Inr False \<Rightarrow> wait_for_completion prompt_id timeout_seconds polls
                | Inr True \<Rightarrow>
                    (case py_getitem h prompt_id of
                       Inl err \<Rightarrow> Some (Inl err)
                     | Inr prompt_history \<Rightarrow>
                         (case history_outcome prompt_history of
                            None \<Rightarrow> wait_for_completion prompt_id timeout_seconds polls
                          | Some outcome \<Rightarrow> Some outcome))))"

text \<open>
  The image descriptor \<^verbatim>\<open>img_data\<close>, the inner loop over the images of one node output and
  the outer loop over the node outputs, with their \<^verbatim>\<open>break\<close>s.
\<close>

record img_data =
  filename :: json
  subfolder :: json
  folder_type :: json

fun scan_images :: "json list \<Rightarrow> img_data option \<Rightarrow> pyerr + img_data option" where
  "scan_images [] target_image = Inr target_image"
| "scan_images (image_info # others) target_image =
     (case image_info of
        JObj info \<Rightarrow>
          (let img = \<lparr>filename = dict_get info ''filename'' JNull,
                      subfolder = dict_get info ''subfolder'' (JStr ''''),
                      folder_type = dict_get info ''type'' (JStr ''output'')\<rparr>
           in if folder_type img = JStr ''output'' then Inr (Some img)
              else scan_images others (if target_image = None then Some img else target_image))
      | _ \<Rightarrow> Inl AttributeError)"

definition is_output :: "img_data option \<Rightarrow> bool" where
  "is_output target_image =
     (case target_image of Some img \<Rightarrow> folder_type img = JStr ''output'' | None \<Rightarrow> False)"

fun scan_outputs :: "json list \<Rightarrow> img_data option \<Rightarrow> pyerr + img_data option" where
  "scan_outputs [] target_image = Inr target_image"
| "scan_outputs (node_output # others) target_image =
     (case py_str_in ''images'' node_output of
        Inl err \<Rightarrow> Inl err
      | Inr False \<Rightarrow> scan_outputs others target_image
      | Inr True \<Rightarrow>
          (case py_getitem node_output ''images'' of
             Inl err \<Rightarrow> Inl err
           | Inr images \<Rightarrow>
               (case py_iter images of
                  Inl err \<Rightarrow> Inl err
                | Inr infos \<Rightarrow>
                    (case scan_images infos target_image of
                       Inl err \<Rightarrow> Inl err
                     | Inr found \<Rightarrow>
                         (if is_output found then Inr found else scan_outputs others found)))))"

text \<open>
  The search for \<^verbatim>\<open>target_image\<close> in \<^verbatim>\<open>execute_workflow\<close>.
\<close>

definition find_target_image :: "json option \<Rightarrow> pyerr + img_data option" where
  "find_target_image result =
     (case result of
        None \<Rightarrow> Inr None
      | Some r \<Rightarrow>
          (if \<not> py_truthy r then Inr None
           else case py_str_in ''outputs'' r of
                  Inl err \<Rightarrow> Inl err
                | Inr False \<Rightarrow> Inr None
                | Inr True \<Rightarrow>
                    (case py_getitem r ''outputs'' of
                       Inl err \<Rightarrow> Inl err
                     | Inr (JObj outputs) \<Rightarrow> scan_outputs (map snd outputs) None
                     | Inr _ \<Rightarrow> Inl AttributeError)))"

text \<open>
  \<^verbatim>\<open>execute_workflow\<close>, from what \<^verbatim>\<open>queue_prompt\<close> returned (a prompt id and the seed the
  enforcer reported), the rounds of the poll loop, and \<^verbatim>\<open>get_image\<close> as a function of its
  three arguments (it catches every exception and returns \<^verbatim>\<open>None\<close>).
\<close>

type_synonym outcome = "bool \<times> string option \<times> status_msg \<times> int option"

definition execute_workflow ::
  "string option \<times> int option \<Rightarrow> poll list \<Rightarrow> (json \<Rightarrow> json \<Rightarrow> json \<Rightarrow> string option) \<Rightarrow>
   int \<Rightarrow> int option \<Rightarrow> (pyerr + outcome) option" where
  "execute_workflow queued polls get_image timeout_seconds known_seed =
     (case queued of (prompt_id, detected_seed) \<Rightarrow>
      if \<not> truthy_id prompt_id then Some (Inr (False, None, SubmitFailed, None))
      else
        (let used_seed = (case known_seed of Some k \<Rightarrow> Some k | None \<Rightarrow> detected_seed)
         in case wait_for_completion (the prompt_id) timeout_seconds polls of
              None \<Rightarrow> None
            | Some (Inl err) \<Rightarrow> Some (Inl err)
            | Some (Inr (success, result, status_msg)) \<Rightarrow>
                (if \<not> success then Some (Inr (False, None, status_msg, used_seed))
                 else case find_target_image result of
                        Inl err \<Rightarrow> Some (Inl err)
                      | Inr None \<Rightarrow> Some (Inr (False, None, NoOutputImage, used_seed))
                      | Inr (Some target_image) \<Rightarrow>
                          (case get_image (filename target_image) (subfolder target_image)
                                  (folder_type target_image) of
                             None \<Rightarrow> Some (Inr (False, None, NoOutputImage, used_seed))
                           | Some image_data \<Rightarrow>
                               (if image_data \<noteq> []
                                then Some (Inr (True, Some image_data, GenerateOK, used_seed))
                                else Some (Inr (False, None, NoOutputImage, used_seed)))))))"

section \<open>Vocabulary of the properties\<close>

text \<open>
  A top-level field of a node, and a field of its \<^verbatim>\<open>inputs\<close>.
\<close>

definition node_field :: "json \<Rightarrow> string \<Rightarrow> json option" where
  "node_field node f = (case node of JObj attrs \<Rightarrow> map_of attrs f | _ \<Rightarrow> None)"

definition node_input :: "json \<Rightarrow> string \<Rightarrow> json option" where
  "node_input node k =
     (case node_field node ''inputs'' of Some (JObj inputs) \<Rightarrow> map_of inputs k | _ \<Rightarrow> None)"

text \<open>
  A seed the enforcer leaves alone: a number other than \<open>-1\<close>.
\<close>

definition concrete_seed :: "json \<Rightarrow> bool" where
  "concrete_seed v = (is_number v \<and> \<not> py_eq_int v (- 1))"

text \<open>
  The seed-named fields of a node and of a graph, in order, and the graphs whose seed-named
  fields are all concrete.
\<close>

definition seed_fields :: "json \<Rightarrow> (string \<times> json) list" where
  "seed_fields node =
     (case node_field node ''inputs'' of
        Some (JObj inputs) \<Rightarrow> filter (\<lambda>(k, v). is_seed_key k) inputs
      | _ \<Rightarrow> [])"

definition graph_seed_fields :: "dict \<Rightarrow> (string \<times> (string \<times> json) list) list" where
  "graph_seed_fields g = map (\<lambda>(nid, node). (nid, seed_fields node)) g"

definition seeds_concrete :: "dict \<Rightarrow> bool" where
  "seeds_concrete g =
     list_all (\<lambda>(nid, fs). list_all (\<lambda>(k, v). concrete_seed v) fs) (graph_seed_fields g)"

text \<open>
  A node as the data model has it: a dictionary whose \<^verbatim>\<open>class_type\<close>, when present, is a
  string, and whose \<^verbatim>\<open>inputs\<close> is a dictionary that holds no \<^verbatim>\<open>nan\<close> and no infinity.
\<close>

fun nonfinite :: "json \<Rightarrow> bool" where
  "nonfinite (JFloat NaN) = True"
| "nonfinite (JFloat PosInf) = True"
| "nonfinite (JFloat NegInf) = True"
| "nonfinite v = False"

definition wf_node :: "json \<Rightarrow> bool" where
  "wf_node node =
     (case node of
        JObj attrs \<Rightarrow>
          (case map_of attrs ''inputs'' of
             Some (JObj inputs) \<Rightarrow>
               is_str (dict_get attrs ''class_type'' (JStr '''')) \<and>
               list_all (\<lambda>v. \<not> nonfinite v) (map snd inputs)
           | _ \<Rightarrow> False)
      | _ \<Rightarrow> False)"

definition wf_graph :: "dict \<Rightarrow> bool" where
  "wf_graph g = list_all wf_node (map snd g)"

text \<open>
  The node \<open>sid\<close> of a graph carries the seed \<open>S\<close> in its \<^verbatim>\<open>seed\<close> field.
\<close>

definition has_seed :: "int \<Rightarrow> dict \<Rightarrow> string \<Rightarrow> bool" where
  "has_seed S workflow sid =
     (case map_of workflow sid of
        Some node \<Rightarrow> node_input node ''seed'' = Some (JInt S)
      | None \<Rightarrow> False)"

text \<open>
  Every template of the registry is an allocated graph object.
\<close>

definition registry_allocated :: "world \<Rightarrow> bool" where
  "registry_allocated w =
     (\<forall>i info. workflows w i = Some info \<longrightarrow> workflow_data info < next_free w)"

text \<open>
  \<open>node'\<close> is what the enforcer makes of \<open>node\<close>, from some loop state.
\<close>

definition enforced_node :: "json \<Rightarrow> json \<Rightarrow> bool" where
  "enforced_node node node' = (\<exists>acc acc'. enforce_node node acc = Inr (node', acc'))"

text \<open>
  A reference that leads through \<open>k\<close> passthrough nodes to the node \<open>target\<close>, which is
  no passthrough node.
\<close>

fun passthrough_chain :: "(json \<Rightarrow> string) \<Rightarrow> dict \<Rightarrow> json \<Rightarrow> nat \<Rightarrow> string \<Rightarrow> bool" where
  "passthrough_chain repr wdata link_ref 0 target =
     (case link_ref of
        JList (first # rest) \<Rightarrow>
          py_str repr first = target \<and>
          (case map_of wdata target of
             Some (JObj node) \<Rightarrow>
               \<not> in_types (dict_get node ''class_type'' (JStr '''')) PASSTHROUGH_TYPES
           | _ \<Rightarrow> False)
      | _ \<Rightarrow> False)"
| "passthrough_chain repr wdata link_ref (Suc k) target =
     (case link_ref of
        JList (first # rest) \<Rightarrow>
          (case map_of wdata (py_str repr first) of
             Some (JObj node) \<Rightarrow>
               in_types (dict_get node ''class_type'' (JStr '''')) PASSTHROUGH_TYPES \<and>
               (case dict_get node ''inputs'' (JObj []) of
                  JObj inputs \<Rightarrow>
                    (case find is_link (map snd inputs) of
                       Some v \<Rightarrow> passthrough_chain repr wdata v k target
                     | None \<Rightarrow> False)
                | _ \<Rightarrow> False)
           | _ \<Rightarrow> False)
      | _ \<Rightarrow> False)"





text \<open>
  A node output that holds no image: a dictionary without \<^verbatim>\<open>images\<close>, or with an
  \<^verbatim>\<open>images\<close> that a loop finds empty.
\<close>

definition no_images :: "json \<Rightarrow> bool" where
  "no_images node_output =
     (case node_output of
        JObj kvs \<Rightarrow>
          (case map_of kvs ''images'' of None \<Rightarrow> True | Some v \<Rightarrow> py_iter v = Inr [])
      | _ \<Rightarrow> False)"

text \<open>
  \<^verbatim>\<open>known_seed if known_seed is not None else detected_seed\<close>
\<close>

definition used_seed_of :: "int option \<Rightarrow> int option \<Rightarrow> int option" where
  "used_seed_of known_seed detected_seed =
     (case known_seed of Some k \<Rightarrow> Some k | None \<Rightarrow> detected_seed)"

section \<open>A template and a registry\<close>

definition ex_template :: dict where
  "ex_template =
     [(''3'', JObj [(''class_type'', JStr ''KSampler''),
                    (''inputs'', JObj [(''seed'', JInt 42), (''steps'', JInt 20),
                                       (''control_after_generate'', JStr ''randomize''),
                                       (''positive'', JList [JStr ''6'', JInt 0]),
                                       (''negative'', JList [JStr ''7'', JInt 0])])]),
      (''6'', JObj [(''class_type'', JStr ''CLIPTextEncode''),
                    (''inputs'', JObj [(''text'', JStr ''masterpiece'')])]),
      (''7'', JObj [(''class_type'', JStr ''CLIPTextEncode''),
                    (''inputs'', JObj [(''text'', JStr ''ugly'')])]),
      (''9'', JObj [(''class_type'', JStr ''SaveImage''),
                    (''inputs'', JObj [(''images'', JList [JStr ''3'', JInt 0])])])]"

text \<open>
  What the enforcer makes of the template.
\<close>

definition ex_template_fixed :: dict where
  "ex_template_fixed =
     [(''3'', JObj [(''class_type'', JStr ''KSampler''),
                    (''inputs'', JObj [(''seed'', JInt 42), (''steps'', JInt 20),
                                       (''control_after_generate'', JStr ''fixed''),
                                       (''positive'', JList [JStr ''6'', JInt 0]),
                                       (''negative'', JList [JStr ''7'', JInt 0])])]),
      (''6'', JObj [(''class_type'', JStr ''CLIPTextEncode''),
                    (''inputs'', JObj [(''text'', JStr ''masterpiece'')])]),
      (''7'', JObj [(''class_type'', JStr ''CLIPTextEncode''),
                    (''inputs'', JObj [(''text'', JStr ''ugly'')])]),
      (''9'', JObj [(''class_type'', JStr ''SaveImage''),
                    (''inputs'', JObj [(''images'', JList [JStr ''3'', JInt 0])])])]"

definition ex_mapping :: workflow_node_mapping where
  "ex_mapping =
     \<lparr>positive_prompt_node = Some ''6'', negative_prompt_node = Some ''7'',
      latent_image_node = None, sampler_node = Some ''3'', sampler_nodes = [''3''],
      load_image_node = None, output_node = Some ''9'',
      positive_prompt_field = ''text'', negative_prompt_field = ''text'',
      has_tensorrt = False\<rparr>"

definition ex_info :: workflow_info where
  "ex_info =
     \<lparr>name = ''demo'', file_path = ''workflows/demo.json'', workflow_data = 0,
      node_mapping = ex_mapping, description = ''demo''\<rparr>"

definition ex_entropy :: entropy where
  "ex_entropy = (\<lambda>n. 99)"

definition ex_world :: world where
  "ex_world =
     \<lparr>heap = (\<lambda>a. [])(0 := ex_template), next_free = 1,
      workflows = Map.empty(1 \<mapsto> ex_info), rng = ex_entropy,
      deepcopy_room = 64\<rparr>"

text \<open>
  The copy of the template after \<^verbatim>\<open>prepare_workflow\<close> with the prompts \<^verbatim>\<open>a cat\<close>,
  \<^verbatim>\<open>blurry\<close> and the seed \<open>-1\<close>, and what the enforcer makes of it.
\<close>

definition ex_prepared_sentinel :: dict where
  "ex_prepared_sentinel =
     [(''3'', JObj [(''class_type'', JStr ''KSampler''),
                    (''inputs'', JObj [(''seed'', JInt (- 1)), (''steps'', JInt 20),
                                       (''control_after_generate'', JStr ''randomize''),
                                       (''positive'', JList [JStr ''6'', JInt 0]),
                                       (''negative'', JList [JStr ''7'', JInt 0])])]),
      (''6'', JObj [(''class_type'', JStr ''CLIPTextEncode''),
                    (''inputs'', JObj [(''text'', JStr ''a cat'')])]),
      (''7'', JObj [(''class_type'', JStr ''CLIPTextEncode''),
                    (''inputs'', JObj [(''text'', JStr ''blurry'')])]),
      (''9'', JObj [(''class_type'', JStr ''SaveImage''),
                    (''inputs'', JObj [(''images'', JList [JStr ''3'', JInt 0])])])]"

definition ex_enforced_sentinel :: dict where
  "ex_enforced_sentinel =
     [(''3'', JObj [(''class_type'', JStr ''KSampler''),
                    (''inputs'', JObj [(''seed'', JInt 100), (''steps'', JInt 20),
                                       (''control_after_generate'', JStr ''fixed''),
                                       (''positive'', JList [JStr ''6'', JInt 0]),
                                       (''negative'', JList [JStr ''7'', JInt 0])])]),
      (''6'', JObj [(''class_type'', JStr ''CLIPTextEncode''),
                    (''inputs'', JObj [(''text'', JStr ''a cat'')])]),
      (''7'', JObj [(''class_type'', JStr ''CLIPTextEncode''),
                    (''inputs'', JObj [(''text'', JStr ''blurry'')])]),
      (''9'', JObj [(''class_type'', JStr ''SaveImage''),
                    (''inputs'', JObj [(''images'', JList [JStr ''3'', JInt 0])])])]"

text \<open>
  A sampler with the seed \<open>0\<close> next to another node with the seed \<open>5\<close>.
\<close>

definition ex_zero_seed_graph :: dict where
  "ex_zero_seed_graph =
     [(''1'', JObj [(''class_type'', JStr ''KSampler''),
                    (''inputs'', JObj [(''seed'', JInt 0)])]),
      (''2'', JObj [(''class_type'', JStr ''PrimitiveNode''),
                    (''inputs'', JObj [(''seed'', JInt 5)])])]"

text \<open>
  A rendering for the values \<^verbatim>\<open>str\<close> is not modelled on, a chain of ten reroute nodes
  in front of a prompt node, and a template with a title that is a number.
\<close>

definition ex_repr :: "json \<Rightarrow> string" where
  "ex_repr v = ''?''"

definition reroute :: "string \<Rightarrow> json" where
  "reroute source =
     JObj [(''class_type'', JStr ''Reroute''),
           (''inputs'', JObj [('''', JList [JStr source, JInt 0])])]"

definition ex_chain :: dict where
  "ex_chain =
     [(''r1'', reroute ''r2''), (''r2'', reroute ''r3''), (''r3'', reroute ''r4''),
      (''r4'', reroute ''r5''), (''r5'', reroute ''r6''), (''r6'', reroute ''r7''),
      (''r7'', reroute ''r8''), (''r8'', reroute ''r9''), (''r9'', reroute ''r10''),
      (''r10'', reroute ''c''),
      (''c'', JObj [(''class_type'', JStr ''CLIPTextEncode''),
                    (''inputs'', JObj [(''text'', JStr ''a cat'')])])]"





text \<open>
  History records of the prompt \<^verbatim>\<open>42\<close>: completed without an image, completed with one
  image, and failed; and a \<^verbatim>\<open>get_image\<close> whose every fetch fails.
\<close>

definition ex_history_no_image :: json where
  "ex_history_no_image =
     JObj [(''42'', JObj [(''outputs'', JObj [(''9'', JObj [])]),
                          (''status'', JObj [(''status_str'', JStr ''success'')])])]"

definition ex_history_image :: json where
  "ex_history_image =
     JObj [(''42'', JObj [(''outputs'',
                             JObj [(''9'', JObj [(''images'',
                                JList [JObj [(''filename'', JStr ''out.png''),
                                             (''subfolder'', JStr ''''),
                                             (''type'', JStr ''output'')]])])]),
                          (''status'', JObj [(''status_str'', JStr ''success'')])])]"

definition ex_history_error :: json where
  "ex_history_error =
     JObj [(''42'', JObj [(''outputs'', JObj []),
                          (''status'', JObj [(''status_str'', JStr ''error'')])])]"

definition ex_fetch_fails :: "json \<Rightarrow> json \<Rightarrow> json \<Rightarrow> string option" where
  "ex_fetch_fails file folder kind = None"

text \<open>
  A sampler whose seed is an integer of 4301 digits.
\<close>

definition ex_long_seed_graph :: dict where
  "ex_long_seed_graph =
     [(''1'', JObj [(''class_type'', JStr ''KSampler''),
                    (''inputs'', JObj [(''seed'', JInt (10 ^ int_max_str_digits))])])]"

section \<open>The copies: what raises, what stays copyable\<close>

lemma first_error_None: "first_error xs = None \<longleftrightarrow> (\<forall>x\<in>set xs. x = None)"
  by (induction xs rule: first_error.induct) auto

lemma json_error_obj:
  "json_error room (JObj kvs) = None \<longleftrightarrow>
     room \<noteq> 0 \<and> list_all (\<lambda>v. json_error (room - 1) v = None) (map snd kvs)"
  by (auto simp: first_error_None list_all_iff)

lemma short_int: "\<bar>i\<bar> < 10 ^ 18 \<Longrightarrow> \<not> int_too_long i"
proof -
  assume "\<bar>i\<bar> < 10 ^ 18"
  also have "(10::int) ^ 18 \<le> 10 ^ int_max_str_digits"
    by (rule power_increasing) (simp_all add: int_max_str_digits_def)
  finally show ?thesis by (simp add: int_too_long_def)
qed

lemma long_int: "int_too_long (10 ^ int_max_str_digits)"
  by (simp add: int_too_long_def)

lemma random_seed_short: "\<not> int_too_long (fst (randint 1 (2 ^ 63 - 1) e))"
proof -
  have "\<bar>fst (randint 1 (2 ^ 63 - 1) e)\<bar> < 2 ^ 63" by (simp add: randint_def)
  also have "(2::int) ^ 63 \<le> 10 ^ 63" by (rule power_mono) simp_all
  also have "(10::int) ^ 63 \<le> 10 ^ int_max_str_digits"
    by (rule power_increasing) (simp_all add: int_max_str_digits_def)
  finally show ?thesis by (simp add: int_too_long_def)
qed

lemma json_roundtrip_Inr: "json_roundtrip room d = Inr d' \<longleftrightarrow> json_error room (JObj d) = None \<and> d' = d"
  by (auto simp: json_roundtrip_def split: option.splits)

lemma map_of_value_in: "map_of al k = Some v \<Longrightarrow> v \<in> set (map snd al)"
  by (metis map_of_SomeD set_zip_rightD zip_map_fst_snd)

lemma list_all_snd_update:
  "list_all P (map snd al) \<Longrightarrow> P v \<Longrightarrow> list_all P (map snd (AList.update k v al))"
  by (induction al) auto

lemma json_error_lookup:
  assumes "json_error room (JObj kvs) = None" and "map_of kvs k = Some v"
  shows "room \<noteq> 0" and "json_error (room - 1) v = None"
  using assms map_of_value_in [OF assms(2)]
  by (auto simp: json_error_obj list_all_iff simp del: json_error.simps)

lemma json_error_update:
  assumes "json_error room (JObj kvs) = None" and "json_error (room - 1) v = None"
  shows "json_error room (JObj (AList.update k v kvs)) = None"
  using assms
  by (simp add: json_error_obj list_all_snd_update del: json_error.simps)

lemma json_error_input_update:
  assumes "json_error room (JObj g) = None"
    and "map_of g nid = Some (JObj attrs)" and "map_of attrs ''inputs'' = Some (JObj ins)"
    and "list_all (\<lambda>v. json_error (room - 1 - 1 - 1) v = None) (map snd ins')"
  shows "json_error room (JObj (AList.update nid
           (JObj (AList.update ''inputs'' (JObj ins') attrs)) g)) = None"
proof -
  from json_error_lookup [OF assms(1,2)]
  have a: "json_error (room - 1) (JObj attrs) = None" by simp
  from json_error_lookup [OF a assms(3)]
  have i: "json_error (room - 1 - 1) (JObj ins) = None" by simp
  then have "room - 1 - 1 \<noteq> 0" by (simp add: json_error_obj del: json_error.simps)
  with assms(4) have "json_error (room - 1 - 1) (JObj ins') = None"
    by (simp add: json_error_obj del: json_error.simps)
  from json_error_update [OF a this]
  have "json_error (room - 1) (JObj (AList.update ''inputs'' (JObj ins') attrs)) = None" .
  from json_error_update [OF assms(1) this] show ?thesis .
qed

lemma json_error_inputs:
  assumes "json_error room (JObj g) = None"
    and "map_of g nid = Some (JObj attrs)" and "map_of attrs ''inputs'' = Some (JObj ins)"
  shows "list_all (\<lambda>v. json_error (room - 1 - 1 - 1) v = None) (map snd ins)"
proof -
  from json_error_lookup [OF assms(1,2)]
  have a: "json_error (room - 1) (JObj attrs) = None" by simp
  from json_error_lookup [OF a assms(3)]
  have "json_error (room - 1 - 1) (JObj ins) = None" by simp
  then show ?thesis by (simp add: json_error_obj del: json_error.simps)
qed


section \<open>The seed enforcer: frame, totality, idempotence\<close>

lemmas eval_enforce = enforce_deterministic_workflow_def json_roundtrip_def short_int
  enforce_node_def enforce_seed_key_def is_seed_key_def lower_def lower_char_def sublist_code
  dict_get_def fix_control_def final_seed_def

lemma map_of_key_in: "map_of al k = Some v \<Longrightarrow> k \<in> set (map fst al)"
  by (metis map_of_eq_None_iff option.distinct(1) set_map)

lemma filter_update_other:
  "\<not> P k \<Longrightarrow> filter (\<lambda>(k', v). P k') (AList.update k v al) = filter (\<lambda>(k', v). P k') al"
  by (induction al) auto

lemma enforce_seed_key_frame:
  assumes "enforce_seed_key ct key (ins, e, ks, ms) = Inr (ins', e', ks', ms')"
  shows "map fst ins' = map fst ins"
    and "k \<noteq> key \<Longrightarrow> map_of ins' k = map_of ins k"
    and "map_of ins key = Some v \<Longrightarrow> concrete_seed v \<Longrightarrow> ins' = ins \<and> e' = e"
  using assms
  by (auto simp: enforce_seed_key_def concrete_seed_def update_keys update_conv' randint_def
      dest: map_of_key_in
      split: option.splits if_splits sum.splits bool.splits prod.splits)

lemma for_each_seed_keys:
  "for_each (enforce_seed_key ct) keys (ins, e, ks, ms) = Inr (ins', e', ks', ms') \<Longrightarrow>
   map fst ins' = map fst ins"
proof (induction keys arbitrary: ins e ks ms)
  case Nil
  then show ?case by simp
next
  case (Cons key keys)
  from Cons.prems obtain ins1 e1 ks1 ms1
    where s: "enforce_seed_key ct key (ins, e, ks, ms) = Inr (ins1, e1, ks1, ms1)"
      and r: "for_each (enforce_seed_key ct) keys (ins1, e1, ks1, ms1) = Inr (ins', e', ks', ms')"
    by (auto split: sum.splits)
  from Cons.IH [OF r] enforce_seed_key_frame(1) [OF s] show ?case by simp
qed

lemma for_each_seed_other:
  "for_each (enforce_seed_key ct) keys (ins, e, ks, ms) = Inr (ins', e', ks', ms') \<Longrightarrow>
   k \<notin> set keys \<Longrightarrow> map_of ins' k = map_of ins k"
proof (induction keys arbitrary: ins e ks ms)
  case Nil
  then show ?case by simp
next
  case (Cons key keys)
  from Cons.prems obtain ins1 e1 ks1 ms1
    where s: "enforce_seed_key ct key (ins, e, ks, ms) = Inr (ins1, e1, ks1, ms1)"
      and r: "for_each (enforce_seed_key ct) keys (ins1, e1, ks1, ms1) = Inr (ins', e', ks', ms')"
    by (auto split: sum.splits)
  from Cons.prems have "k \<noteq> key" "k \<notin> set keys" by auto
  with Cons.IH [OF r] enforce_seed_key_frame(2) [OF s] show ?case by simp
qed

lemma for_each_seed_concrete:
  "for_each (enforce_seed_key ct) keys (ins, e, ks, ms) = Inr (ins', e', ks', ms') \<Longrightarrow>
   map_of ins k = Some v \<Longrightarrow> concrete_seed v \<Longrightarrow> map_of ins' k = Some v"
proof (induction keys arbitrary: ins e ks ms)
  case Nil
  then show ?case by simp
next
  case (Cons key keys)
  from Cons.prems obtain ins1 e1 ks1 ms1
    where s: "enforce_seed_key ct key (ins, e, ks, ms) = Inr (ins1, e1, ks1, ms1)"
      and r: "for_each (enforce_seed_key ct) keys (ins1, e1, ks1, ms1) = Inr (ins', e', ks', ms')"
    by (auto split: sum.splits)
  have "map_of ins1 k = Some v"
  proof (cases "k = key")
    case True
    with enforce_seed_key_frame(3) [OF s] Cons.prems show ?thesis by simp
  next
    case False
    with enforce_seed_key_frame(2) [OF s] Cons.prems show ?thesis by simp
  qed
  from Cons.IH [OF r this Cons.prems(3)] show ?case .
qed

lemma for_each_seed_all_concrete:
  "for_each (enforce_seed_key ct) keys (ins, e, ks, ms) = Inr (ins', e', ks', ms') \<Longrightarrow>
   \<forall>k\<in>set keys. \<forall>v. map_of ins k = Some v \<longrightarrow> concrete_seed v \<Longrightarrow> ins' = ins \<and> e' = e"
proof (induction keys arbitrary: ins e ks ms)
  case Nil
  then show ?case by simp
next
  case (Cons key keys)
  from Cons.prems obtain ins1 e1 ks1 ms1
    where s: "enforce_seed_key ct key (ins, e, ks, ms) = Inr (ins1, e1, ks1, ms1)"
      and r: "for_each (enforce_seed_key ct) keys (ins1, e1, ks1, ms1) = Inr (ins', e', ks', ms')"
    by (auto split: sum.splits)
  from s obtain v where v: "map_of ins key = Some v"
    by (auto simp: enforce_seed_key_def split: option.splits)
  with Cons.prems have "concrete_seed v" by simp
  from enforce_seed_key_frame(3) [OF s v this] have eq: "ins1 = ins" "e1 = e" by simp_all
  from Cons.IH [of ins e ks1 ms1] r eq Cons.prems(2) show ?case by simp
qed

lemma fix_control_keys: "map fst (fix_control ins) = map fst ins"
  by (auto simp: fix_control_def update_keys dest: map_of_key_in split: option.splits)

lemma fix_control_other:
  "k \<noteq> ''control_after_generate'' \<Longrightarrow> map_of (fix_control ins) k = map_of ins k"
  by (auto simp: fix_control_def update_conv' split: option.splits)

lemma fix_control_idem: "fix_control (fix_control ins) = fix_control ins"
  by (auto simp: fix_control_def update_conv' split: option.splits)

lemma control_not_seed: "\<not> is_seed_key ''control_after_generate''"
  by (simp add: is_seed_key_def lower_def lower_char_def sublist_code)

lemma seed_fields_fix_control:
  "filter (\<lambda>(k, v). is_seed_key k) (fix_control ins) = filter (\<lambda>(k, v). is_seed_key k) ins"
  by (simp add: fix_control_def filter_update_other control_not_seed split: option.splits)

lemma enforce_node_cases:
  assumes "enforce_node node acc = Inr (node', acc')"
  obtains (skip) "node' = node" "acc' = acc" "\<And>a. enforce_node node a = Inr (node, a)"
  | (fixed) attrs ins ins' e ks ms e' ks' ms'
    where "node = JObj attrs" "map_of attrs ''inputs'' = Some (JObj ins)"
      "acc = (e, ks, ms)" "acc' = (e', ks', ms')"
      "for_each (enforce_seed_key (dict_get attrs ''class_type'' (JStr '''')))
         (filter is_seed_key (map fst ins)) (ins, e, ks, ms) = Inr (ins', e', ks', ms')"
      "node' = JObj (AList.update ''inputs'' (JObj (fix_control ins')) attrs)"
proof -
  obtain e ks ms where acc: "acc = (e, ks, ms)" by (cases acc) auto
  show thesis
    using assms that unfolding acc enforce_node_def
    by (auto simp: Let_def split: json.splits option.splits if_splits sum.splits prod.splits)
qed

lemma enforce_node_field:
  assumes "enforce_node node acc = Inr (node', acc')" and "f \<noteq> ''inputs''"
  shows "node_field node' f = node_field node f"
  using assms(1)
  by (cases rule: enforce_node_cases) (simp_all add: node_field_def update_conv' assms(2))

lemma enforce_node_other_input:
  assumes "enforce_node node acc = Inr (node', acc')"
    and "k \<noteq> ''control_after_generate''" and "\<not> is_seed_key k"
  shows "node_input node' k = node_input node k"
  using assms(1)
proof (cases rule: enforce_node_cases)
  case skip
  then show ?thesis by simp
next
  case (fixed attrs ins ins' e ks ms e' ks' ms')
  from for_each_seed_other [OF fixed(5), of k] assms(3) have "map_of ins' k = map_of ins k"
    by simp
  with fixed assms(2) show ?thesis
    by (simp add: node_input_def node_field_def update_conv' fix_control_other)
qed

lemma enforce_node_concrete_input:
  assumes "enforce_node node acc = Inr (node', acc')"
    and "k \<noteq> ''control_after_generate''" and "node_input node k = Some v" and "concrete_seed v"
  shows "node_input node' k = Some v"
  using assms(1)
proof (cases rule: enforce_node_cases)
  case skip
  with assms show ?thesis by simp
next
  case (fixed attrs ins ins' e ks ms e' ks' ms')
  from fixed assms(3) have "map_of ins k = Some v"
    by (simp add: node_input_def node_field_def)
  from for_each_seed_concrete [OF fixed(5) this assms(4)] have "map_of ins' k = Some v" .
  with fixed assms(2) show ?thesis
    by (simp add: node_input_def node_field_def update_conv' fix_control_other)
qed

lemma enforce_nodes_shape:
  "enforce_nodes g acc = Inr (g', acc') \<Longrightarrow>
   map fst g' = map fst g \<and> list_all2 enforced_node (map snd g) (map snd g')"
proof (induction g arbitrary: acc g' acc')
  case Nil
  then show ?case by simp
next
  case (Cons p g)
  obtain nid node where p: "p = (nid, node)" by (cases p)
  from Cons.prems obtain node1 acc1 rest
    where n: "enforce_node node acc = Inr (node1, acc1)"
      and r: "enforce_nodes g acc1 = Inr (rest, acc')"
      and g': "g' = (nid, node1) # rest"
    unfolding p by (auto split: sum.splits)
  from n have "enforced_node node node1" unfolding enforced_node_def by blast
  with Cons.IH [OF r] show ?case unfolding p g' by simp
qed

lemma map_of_enforced:
  "map fst g' = map fst g \<Longrightarrow> list_all2 enforced_node (map snd g) (map snd g') \<Longrightarrow>
   map_of g nid = Some node \<Longrightarrow> \<exists>node'. map_of g' nid = Some node' \<and> enforced_node node node'"
proof (induction g arbitrary: g')
  case Nil
  then show ?case by simp
next
  case (Cons p g)
  from Cons.prems(1) obtain p' rest where g': "g' = p' # rest" by (cases g') auto
  with Cons.prems have "fst p' = fst p" "map fst rest = map fst g"
    "enforced_node (snd p) (snd p')" "list_all2 enforced_node (map snd g) (map snd rest)"
    by simp_all
  with Cons.IH [of rest] Cons.prems(3) show ?case
    unfolding g' by (cases p; cases p') (auto split: if_splits)
qed

lemma py_int_total: "is_number v \<Longrightarrow> \<not> nonfinite v \<Longrightarrow> \<exists>i. py_int v = Inr i"
  by (cases v rule: py_int.cases) auto

lemma enforce_seed_key_total:
  assumes "key \<in> set (map fst ins)" and "list_all (\<lambda>v. \<not> nonfinite v) (map snd ins)"
    and "is_str ct"
  shows "\<exists>ins' e' ks' ms'. enforce_seed_key ct key (ins, e, ks, ms) = Inr (ins', e', ks', ms')
           \<and> map fst ins' = map fst ins \<and> list_all (\<lambda>v. \<not> nonfinite v) (map snd ins')"
proof -
  from assms(1) obtain cur where cur: "map_of ins key = Some cur"
    by (metis map_of_eq_None_iff not_Some_eq set_map)
  then have "cur \<in> set (map snd ins)"
    by (metis map_of_SomeD set_zip_rightD zip_map_fst_snd)
  with assms(2) have fin: "\<not> nonfinite cur" by (auto simp: list_all_iff)
  from assms(3) obtain s where ct: "ct = JStr s" by (cases ct) auto
  show ?thesis
  proof (cases "\<not> is_number cur \<or> py_eq_int cur (- 1)")
    case True
    obtain r e1 where rd: "randint 1 (2 ^ 63 - 1) e = (r, e1)"
      by (cases "randint 1 (2 ^ 63 - 1) e")
    have la: "list_all (\<lambda>v. \<not> nonfinite v) (map snd (AList.update key (JInt r) ins))"
      using assms(2) by (rule list_all_snd_update) simp
    have keys: "map fst (AList.update key (JInt r) ins) = map fst ins"
      using assms(1) by (simp add: update_keys)
    show ?thesis
      using True cur rd la keys
      by (cases "sublist ''Sampler'' s"; cases ms) (simp_all add: enforce_seed_key_def ct)
  next
    case False
    with py_int_total [of cur] fin obtain i where "py_int cur = Inr i" by auto
    with False cur assms(2) show ?thesis
      by (cases "sublist ''Sampler'' s"; cases ms) (simp_all add: enforce_seed_key_def ct)
  qed
qed

lemma for_each_seed_total:
  "set keys \<subseteq> set (map fst ins) \<Longrightarrow> list_all (\<lambda>v. \<not> nonfinite v) (map snd ins) \<Longrightarrow>
   is_str ct \<Longrightarrow> \<exists>r. for_each (enforce_seed_key ct) keys (ins, e, ks, ms) = Inr r"
proof (induction keys arbitrary: ins e ks ms)
  case Nil
  then show ?case by simp
next
  case (Cons key keys)
  from Cons.prems have "key \<in> set (map fst ins)" by simp
  from enforce_seed_key_total [OF this Cons.prems(2,3), of e ks ms]
  obtain ins1 e1 ks1 ms1
    where s: "enforce_seed_key ct key (ins, e, ks, ms) = Inr (ins1, e1, ks1, ms1)"
      and k: "map fst ins1 = map fst ins"
      and f: "list_all (\<lambda>v. \<not> nonfinite v) (map snd ins1)"
    by blast
  from Cons.prems k have "set keys \<subseteq> set (map fst ins1)" by simp
  from Cons.IH [OF this f Cons.prems(3), of e1 ks1 ms1] s show ?case by simp
qed

lemma enforce_node_total:
  assumes "wf_node node"
  shows "\<exists>node' acc'. enforce_node node acc = Inr (node', acc')"
proof -
  obtain e ks ms where acc: "acc = (e, ks, ms)" by (cases acc) auto
  show ?thesis
    unfolding acc
  proof (cases node)
    case (JObj attrs)
    show "\<exists>node' acc'. enforce_node node (e, ks, ms) = Inr (node', acc')"
    proof (cases "map_of attrs ''inputs''")
      case None
      with assms JObj show ?thesis by (simp add: wf_node_def)
    next
      case (Some inputs)
      with assms JObj obtain ins where ins: "inputs = JObj ins"
        by (cases inputs) (auto simp: wf_node_def)
      from assms JObj Some ins
      have t: "is_str (dict_get attrs ''class_type'' (JStr ''''))"
        and f: "list_all (\<lambda>v. \<not> nonfinite v) (map snd ins)"
        by (auto simp: wf_node_def)
      have "set (filter is_seed_key (map fst ins)) \<subseteq> set (map fst ins)" by auto
      from for_each_seed_total [OF this f t, of e ks ms] obtain r
        where "for_each (enforce_seed_key (dict_get attrs ''class_type'' (JStr '''')))
                 (filter is_seed_key (map fst ins)) (ins, e, ks, ms) = Inr r" by blast
      with JObj Some ins show ?thesis
        by (cases r) (simp add: enforce_node_def)
    qed
  qed (use assms in \<open>simp_all add: wf_node_def\<close>)
qed

lemma enforce_nodes_total:
  "list_all wf_node (map snd g) \<Longrightarrow> \<exists>g' acc'. enforce_nodes g acc = Inr (g', acc')"
proof (induction g arbitrary: acc)
  case Nil
  show ?case by (intro exI [where x = "[]"] exI [where x = acc]) simp
next
  case (Cons p g)
  obtain nid node where p: "p = (nid, node)" by (cases p)
  from Cons.prems p have "wf_node node" by simp
  from enforce_node_total [OF this, of acc] obtain node1 acc1
    where n: "enforce_node node acc = Inr (node1, acc1)" by blast
  from Cons.prems Cons.IH [of acc1] obtain g1 acc2
    where "enforce_nodes g acc1 = Inr (g1, acc2)" by auto
  with n show ?case unfolding p
    by (intro exI [where x = "(nid, node1) # g1"] exI [where x = acc2]) simp
qed

lemma enforce_unfold:
  assumes "enforce_deterministic_workflow room g e = Inr (g', s, e')"
  obtains ks ms where "json_error room (JObj g) = None"
    "enforce_nodes g (e, None, None) = Inr (g', e', ks, ms)" "s = final_seed ks ms"
  using assms
  by (auto simp: enforce_deterministic_workflow_def json_roundtrip_def
      split: sum.splits option.splits)

lemma enforce_total:
  assumes "list_all wf_node (map snd g)" and "json_roundtrip room g = Inr g"
  shows "\<exists>g' s e'. enforce_deterministic_workflow room g e = Inr (g', s, e')"
proof -
  from enforce_nodes_total [OF assms(1), of "(e, None, None)"] obtain g1 acc1
    where "enforce_nodes g (e, None, None) = Inr (g1, acc1)" by blast
  with assms(2) show ?thesis
    by (cases acc1) (auto simp: enforce_deterministic_workflow_def)
qed

lemma enforce_seed_key_rerun:
  assumes "enforce_seed_key ct key (ins, e, ks, ms) = Inr (ins1, e1, ks1, ms1)"
    and "map_of ins key = Some v" and "concrete_seed v" and "map_of ins2 key = Some v"
  shows "enforce_seed_key ct key (ins2, e2, ks, ms) = Inr (ins2, e2, ks1, ms1)"
  using assms
  by (auto simp: enforce_seed_key_def concrete_seed_def
      split: sum.splits bool.splits if_splits)

lemma for_each_seed_rerun:
  "for_each (enforce_seed_key ct) keys (ins, e, ks, ms) = Inr (ins', e', ks', ms') \<Longrightarrow>
   \<forall>k\<in>set keys. \<forall>v. map_of ins k = Some v \<longrightarrow> concrete_seed v \<Longrightarrow>
   \<forall>k\<in>set keys. map_of ins2 k = map_of ins k \<Longrightarrow>
   for_each (enforce_seed_key ct) keys (ins2, e2, ks, ms) = Inr (ins2, e2, ks', ms')"
proof (induction keys arbitrary: ks ms)
  case Nil
  then show ?case by simp
next
  case (Cons key keys)
  from Cons.prems(1) obtain ins1 e1 ks1 ms1
    where s: "enforce_seed_key ct key (ins, e, ks, ms) = Inr (ins1, e1, ks1, ms1)"
      and r: "for_each (enforce_seed_key ct) keys (ins1, e1, ks1, ms1) = Inr (ins', e', ks', ms')"
    by (auto split: sum.splits)
  from s obtain v where v: "map_of ins key = Some v"
    by (auto simp: enforce_seed_key_def split: option.splits)
  with Cons.prems(2) have c: "concrete_seed v" by simp
  from enforce_seed_key_frame(3) [OF s v c] have eq: "ins1 = ins" "e1 = e" by simp_all
  from Cons.prems(3) v have "map_of ins2 key = Some v" by simp
  from enforce_seed_key_rerun [OF s v c this]
  have s2: "enforce_seed_key ct key (ins2, e2, ks, ms) = Inr (ins2, e2, ks1, ms1)" .
  from Cons.IH [of ks1 ms1] r eq Cons.prems(2,3)
  have "for_each (enforce_seed_key ct) keys (ins2, e2, ks1, ms1) = Inr (ins2, e2, ks', ms')"
    by simp
  with s2 show ?case by simp
qed

lemma enforce_node_concrete:
  assumes "enforce_node node (e, ks, ms) = Inr (node', e', ks', ms')"
    and "list_all (\<lambda>(k, v). concrete_seed v) (seed_fields node)"
  shows "e' = e \<and> seed_fields node' = seed_fields node
         \<and> enforce_node node' (e2, ks, ms) = Inr (node', e2, ks', ms')"
  using assms(1)
proof (cases rule: enforce_node_cases)
  case skip
  then show ?thesis by simp
next
  case (fixed attrs ins ins1 e0 ks0 ms0 e1 ks1 ms1)
  let ?ct = "dict_get attrs ''class_type'' (JStr '''')"
  let ?keys = "filter is_seed_key (map fst ins)"
  from fixed have run: "for_each (enforce_seed_key ?ct) ?keys (ins, e, ks, ms) = Inr (ins1, e', ks', ms')"
    by simp
  from assms(2) fixed have conc: "\<forall>k\<in>set ?keys. \<forall>v. map_of ins k = Some v \<longrightarrow> concrete_seed v"
    by (auto simp: seed_fields_def node_field_def list_all_iff dest!: map_of_SomeD)
  from for_each_seed_all_concrete [OF run conc] have same: "ins1 = ins" "e' = e" by simp_all
  have "\<forall>k\<in>set ?keys. map_of (fix_control ins) k = map_of ins k"
  proof
    fix k assume "k \<in> set ?keys"
    then have "is_seed_key k" by simp
    with control_not_seed have "k \<noteq> ''control_after_generate''" by auto
    then show "map_of (fix_control ins) k = map_of ins k" by (rule fix_control_other)
  qed
  from for_each_seed_rerun [OF run [unfolded same] conc this, of e2]
  have rerun: "for_each (enforce_seed_key ?ct) ?keys (fix_control ins, e2, ks, ms)
                 = Inr (fix_control ins, e2, ks', ms')" .
  have sf: "seed_fields node' = seed_fields node"
    using fixed same by (simp add: seed_fields_def node_field_def update_conv' seed_fields_fix_control)
  have ct: "dict_get (AList.update ''inputs'' (JObj (fix_control ins)) attrs) ''class_type'' (JStr '''') = ?ct"
    by (simp add: dict_get_def update_conv')
  have "enforce_node node' (e2, ks, ms) = Inr (node', e2, ks', ms')"
    using fixed(6) same rerun
    by (simp add: enforce_node_def update_conv' ct fix_control_keys fix_control_idem)
  with same sf show ?thesis by simp
qed

lemma enforce_nodes_concrete:
  "enforce_nodes g (e, ks, ms) = Inr (g', e', ks', ms') \<Longrightarrow> seeds_concrete g \<Longrightarrow>
   e' = e \<and> graph_seed_fields g' = graph_seed_fields g
     \<and> enforce_nodes g' (e2, ks, ms) = Inr (g', e2, ks', ms')"
proof (induction g arbitrary: ks ms g')
  case Nil
  then show ?case by simp
next
  case (Cons p g)
  obtain nid node where p: "p = (nid, node)" by (cases p)
  from Cons.prems(1) obtain node1 e1 ks1 ms1 rest
    where n: "enforce_node node (e, ks, ms) = Inr (node1, e1, ks1, ms1)"
      and r: "enforce_nodes g (e1, ks1, ms1) = Inr (rest, e', ks', ms')"
      and g': "g' = (nid, node1) # rest"
    unfolding p by (auto split: sum.splits)
  from Cons.prems(2) have c1: "list_all (\<lambda>(k, v). concrete_seed v) (seed_fields node)"
    and c2: "seeds_concrete g"
    by (simp_all add: seeds_concrete_def graph_seed_fields_def p)
  from enforce_node_concrete [OF n c1, of e2]
  have n1: "e1 = e" "seed_fields node1 = seed_fields node"
    "enforce_node node1 (e2, ks, ms) = Inr (node1, e2, ks1, ms1)" by simp_all
  from Cons.IH [of ks1 ms1 rest] r c2 n1(1)
  have "e' = e" "graph_seed_fields rest = graph_seed_fields g"
    "enforce_nodes rest (e2, ks1, ms1) = Inr (rest, e2, ks', ms')" by simp_all
  with n1 show ?case by (simp add: g' p graph_seed_fields_def)
qed

lemma enforce_keeps_seed:
  assumes "enforce_deterministic_workflow room g e = Inr (g', rep, e')"
    and "has_seed S g sid" and "S \<noteq> - 1"
  shows "has_seed S g' sid"
proof -
  from assms(1) obtain ks ms where n: "enforce_nodes g (e, None, None) = Inr (g', e', ks, ms)"
    by (rule enforce_unfold)
  from assms(2) obtain node where node: "map_of g sid = Some node"
    and seed: "node_input node ''seed'' = Some (JInt S)"
    by (auto simp: has_seed_def split: option.splits)
  from enforce_nodes_shape [OF n] map_of_enforced [OF _ _ node, of g']
  obtain node' where node': "map_of g' sid = Some node'" and en: "enforced_node node node'"
    by blast
  from en obtain a a' where "enforce_node node a = Inr (node', a')"
    unfolding enforced_node_def by blast
  from enforce_node_concrete_input [OF this _ seed] assms(3)
  have "node_input node' ''seed'' = Some (JInt S)"
    by (simp add: concrete_seed_def)
  with node' show ?thesis by (simp add: has_seed_def)
qed

lemma enforce_seed_key_values:
  assumes "enforce_seed_key ct key (ins, e, ks, ms) = Inr (ins', e', ks', ms')"
    and "list_all P (map snd ins)" and "\<And>e. P (JInt (fst (randint 1 (2 ^ 63 - 1) e)))"
  shows "list_all P (map snd ins')"
proof -
  have "list_all P (map snd (AList.update key (JInt (fst (randint 1 (2 ^ 63 - 1) e))) ins))"
    using assms(2) assms(3) [of e] by (rule list_all_snd_update)
  with assms(1,2) show ?thesis
    by (auto simp: enforce_seed_key_def
        split: option.splits if_splits sum.splits bool.splits prod.splits)
qed

lemma for_each_seed_values:
  "for_each (enforce_seed_key ct) keys (ins, e, ks, ms) = Inr (ins', e', ks', ms') \<Longrightarrow>
   list_all P (map snd ins) \<Longrightarrow> (\<And>e. P (JInt (fst (randint 1 (2 ^ 63 - 1) e)))) \<Longrightarrow>
   list_all P (map snd ins')"
proof (induction keys arbitrary: ins e ks ms)
  case Nil
  then show ?case by simp
next
  case (Cons key keys)
  from Cons.prems(1) obtain ins1 e1 ks1 ms1
    where s: "enforce_seed_key ct key (ins, e, ks, ms) = Inr (ins1, e1, ks1, ms1)"
      and r: "for_each (enforce_seed_key ct) keys (ins1, e1, ks1, ms1) = Inr (ins', e', ks', ms')"
    by (auto split: sum.splits)
  from enforce_seed_key_values [OF s Cons.prems(2) Cons.prems(3)]
  have "list_all P (map snd ins1)" .
  from Cons.IH [OF r this Cons.prems(3)] show ?case .
qed

lemma fix_control_values:
  "list_all P (map snd ins) \<Longrightarrow> P (JStr ''fixed'') \<Longrightarrow> list_all P (map snd (fix_control ins))"
  by (auto simp: fix_control_def list_all_snd_update split: option.splits)

lemma enforce_node_copyable:
  assumes "enforce_node node acc = Inr (node', acc')" and "json_error room node = None"
  shows "json_error room node' = None"
  using assms(1)
proof (cases rule: enforce_node_cases)
  case skip
  with assms(2) show ?thesis by simp
next
  case (fixed attrs ins ins' e ks ms e' ks' ms')
  let ?P = "\<lambda>v. json_error (room - 1 - 1) v = None"
  from assms(2) fixed(1) have a: "json_error room (JObj attrs) = None" by simp
  from json_error_lookup [OF a fixed(2)]
  have i: "json_error (room - 1) (JObj ins) = None" by simp
  then have r: "room - 1 \<noteq> 0" and all: "list_all ?P (map snd ins)"
    by (simp_all add: json_error_obj del: json_error.simps)
  have "?P (JInt (fst (randint 1 (2 ^ 63 - 1) e)))" for e
    using random_seed_short [of e] by simp
  with for_each_seed_values [OF fixed(5), of ?P] all have "list_all ?P (map snd ins')" by simp
  then have "list_all ?P (map snd (fix_control ins'))" by (rule fix_control_values) simp
  with r have "json_error (room - 1) (JObj (fix_control ins')) = None"
    by (simp add: json_error_obj del: json_error.simps)
  from json_error_update [OF a this] fixed(6) show ?thesis by simp
qed

lemma enforce_nodes_copyable:
  "enforce_nodes g acc = Inr (g', acc') \<Longrightarrow>
   list_all (\<lambda>v. json_error room v = None) (map snd g) \<Longrightarrow>
   list_all (\<lambda>v. json_error room v = None) (map snd g')"
proof (induction g arbitrary: acc g' acc')
  case Nil
  then show ?case by simp
next
  case (Cons p g)
  obtain nid node where p: "p = (nid, node)" by (cases p)
  from Cons.prems(1) obtain node1 acc1 rest
    where n: "enforce_node node acc = Inr (node1, acc1)"
      and r: "enforce_nodes g acc1 = Inr (rest, acc')"
      and g': "g' = (nid, node1) # rest"
    unfolding p by (auto split: sum.splits)
  from Cons.prems(2) p have "json_error room node = None"
    and "list_all (\<lambda>v. json_error room v = None) (map snd g)" by simp_all
  with enforce_node_copyable [OF n] Cons.IH [OF r] show ?case unfolding g' by simp
qed

lemma enforce_result_copyable:
  assumes "enforce_deterministic_workflow room g e = Inr (g', s, e')"
  shows "json_roundtrip room g' = Inr g'"
proof -
  from assms obtain ks ms where c: "json_error room (JObj g) = None"
    and n: "enforce_nodes g (e, None, None) = Inr (g', e', ks, ms)"
    by (rule enforce_unfold)
  from c have "room \<noteq> 0" and "list_all (\<lambda>v. json_error (room - 1) v = None) (map snd g)"
    by (simp_all add: json_error_obj del: json_error.simps)
  with enforce_nodes_copyable [OF n, of "room - 1"] show ?thesis
    by (simp add: json_roundtrip_Inr json_error_obj del: json_error.simps)
qed

text \<open>
  The copy of the enforcer raises on a well-formed graph with concrete seeds when a seed
  is too long for the JSON text, and when the graph is deeper than the round trip can go.
\<close>

lemma enforce_raises_on_long_seed:
  "seeds_concrete ex_long_seed_graph \<and> wf_graph ex_long_seed_graph \<and>
   enforce_deterministic_workflow 64 ex_long_seed_graph e = Inl ValueError"
proof -
  have "(10::int) ^ int_max_str_digits \<noteq> - 1"
    using zero_less_power [of "10::int" int_max_str_digits] by linarith
  then have "seeds_concrete ex_long_seed_graph"
    by (simp add: seeds_concrete_def graph_seed_fields_def seed_fields_def node_field_def
        concrete_seed_def ex_long_seed_graph_def is_seed_key_def lower_def lower_char_def
        sublist_code)
  moreover have "wf_graph ex_long_seed_graph"
    by (simp add: wf_graph_def wf_node_def ex_long_seed_graph_def dict_get_def)
  moreover have "enforce_deterministic_workflow 64 ex_long_seed_graph e = Inl ValueError"
    by (simp add: enforce_deterministic_workflow_def json_roundtrip_def ex_long_seed_graph_def
        long_int)
  ultimately show ?thesis by simp
qed

lemma enforce_raises_without_room:
  "enforce_deterministic_workflow 2 ex_zero_seed_graph e = Inl RecursionError"
  by (simp add: enforce_deterministic_workflow_def json_roundtrip_def ex_zero_seed_graph_def
      short_int)

section \<open>The preparer: what the steps write\<close>

lemmas eval_prepare = prepare_workflow_def deepcopy_def prompt_step_def seed_step_def image_step_def
  set_node_input_def truthy_id_def ex_world_def ex_info_def ex_mapping_def ex_template_def

lemma set_node_input_keys:
  "set_node_input nid f v g = Inr g' \<Longrightarrow> map fst g' = map fst g"
  by (auto simp: set_node_input_def update_keys dest: map_of_key_in
      split: option.splits json.splits)

lemma set_node_input_sets:
  "set_node_input nid ''seed'' (JInt S) g = Inr g' \<Longrightarrow> has_seed S g' nid"
  by (auto simp: set_node_input_def has_seed_def node_input_def node_field_def update_conv'
      split: option.splits json.splits)

lemma set_node_input_keeps:
  "set_node_input nid f v g = Inr g' \<Longrightarrow> f \<noteq> ''seed'' \<or> v = JInt S \<Longrightarrow>
   has_seed S g sid \<Longrightarrow> has_seed S g' sid"
  by (auto simp: set_node_input_def has_seed_def node_input_def node_field_def update_conv'
      split: option.splits json.splits if_splits)

lemma prompt_step_keys: "prompt_step n f p g = Inr g' \<Longrightarrow> map fst g' = map fst g"
  by (auto simp: prompt_step_def dest: set_node_input_keys split: if_splits)

lemma image_step_keys: "image_step img n g = Inr g' \<Longrightarrow> map fst g' = map fst g"
  by (auto simp: image_step_def dest: set_node_input_keys split: if_splits)

lemma image_step_keeps:
  "image_step img n g = Inr g' \<Longrightarrow> has_seed S g sid \<Longrightarrow> has_seed S g' sid"
  by (auto simp: image_step_def dest: set_node_input_keeps [where S = S and sid = sid]
      split: if_splits)

lemma seed_step_keys: "seed_step S sid g = Inr g' \<Longrightarrow> map fst g' = map fst g"
  by (auto simp: seed_step_def update_keys dest!: set_node_input_keys dest: map_of_key_in
      split: option.splits json.splits sum.splits if_splits)

lemma has_seed_update_other:
  "sid \<noteq> nid \<Longrightarrow> has_seed S (AList.update nid v g) sid = has_seed S g sid"
  by (simp add: has_seed_def update_conv')

lemma seed_step_sets:
  "seed_step S sid g = Inr g' \<Longrightarrow> sid \<in> set (map fst g) \<Longrightarrow> has_seed S g' sid"
  by (auto simp: seed_step_def map_of_eq_None_iff image_iff dest!: set_node_input_sets
      split: option.splits json.splits sum.splits if_splits)

lemma seed_step_keeps:
  assumes "seed_step S sid2 g = Inr g'" and "has_seed S g sid"
  shows "has_seed S g' sid"
proof (cases "sid = sid2")
  case True
  from assms(2) have "sid \<in> set (map fst g)"
    by (auto simp: has_seed_def dest: map_of_key_in split: option.splits)
  with assms(1) True show ?thesis by (simp add: seed_step_sets)
next
  case False
  with assms show ?thesis
    by (auto simp: seed_step_def has_seed_update_other
        dest!: set_node_input_keeps [where S = S and sid = sid]
        split: option.splits json.splits sum.splits if_splits)
qed

lemma run_seed_steps_keys:
  "run_steps (map (seed_step S) sids @ [image_step img n]) d = (None, d') \<Longrightarrow>
   map fst d' = map fst d"
  by (induction sids arbitrary: d)
     (auto dest: image_step_keys seed_step_keys split: sum.splits)

lemma run_seed_steps_keeps:
  "run_steps (map (seed_step S) sids @ [image_step img n]) d = (None, d') \<Longrightarrow>
   has_seed S d sid \<Longrightarrow> has_seed S d' sid"
  by (induction sids arbitrary: d)
     (auto dest: image_step_keeps seed_step_keeps split: sum.splits)

lemma run_seed_steps_sets:
  "run_steps (map (seed_step S) sids @ [image_step img n]) d = (None, d') \<Longrightarrow>
   sid \<in> set sids \<Longrightarrow> sid \<in> set (map fst d) \<Longrightarrow> has_seed S d' sid"
proof (induction sids arbitrary: d)
  case Nil
  then show ?case by simp
next
  case (Cons s sids)
  from Cons.prems(1) obtain d1 where s1: "seed_step S s d = Inr d1"
    and r: "run_steps (map (seed_step S) sids @ [image_step img n]) d1 = (None, d')"
    by (auto split: sum.splits)
  show ?case
  proof (cases "sid = s")
    case True
    with s1 Cons.prems(3) have "has_seed S d1 sid" by (simp add: seed_step_sets)
    with r show ?thesis by (rule run_seed_steps_keeps)
  next
    case False
    with Cons.prems(2) have "sid \<in> set sids" by simp
    moreover from seed_step_keys [OF s1] Cons.prems(3) have "sid \<in> set (map fst d1)" by simp
    ultimately show ?thesis using Cons.IH [OF r] by simp
  qed
qed

lemma run_prompt_steps_keys:
  "run_steps [prompt_step n1 f1 p1, prompt_step n2 f2 p2] d = (None, d') \<Longrightarrow>
   map fst d' = map fst d"
  by (auto dest!: prompt_step_keys split: sum.splits)

lemma wf_node_cases:
  assumes "wf_node node"
  obtains attrs ins where "node = JObj attrs" "map_of attrs ''inputs'' = Some (JObj ins)"
    "is_str (dict_get attrs ''class_type'' (JStr ''''))"
    "list_all (\<lambda>v. \<not> nonfinite v) (map snd ins)"
proof (cases node)
  case (JObj attrs)
  show thesis
  proof (cases "map_of attrs ''inputs''")
    case None
    with assms JObj show thesis by (simp add: wf_node_def)
  next
    case (Some inputs)
    with assms JObj that show thesis
      by (cases inputs) (simp_all add: wf_node_def)
  qed
qed (use assms in \<open>simp_all add: wf_node_def\<close>)

lemma wf_graph_lookup:
  assumes "wf_graph g" and "nid \<in> set (map fst g)"
  obtains node where "map_of g nid = Some node" "wf_node node"
proof -
  from assms(2) obtain node where n: "map_of g nid = Some node"
    by (metis map_of_eq_None_iff not_Some_eq set_map)
  then have "node \<in> set (map snd g)"
    by (metis map_of_SomeD set_zip_rightD zip_map_fst_snd)
  with assms(1) have "wf_node node" by (auto simp: wf_graph_def list_all_iff)
  with n that show thesis by blast
qed

lemma set_node_input_total:
  assumes "wf_graph g" and "nid \<in> set (map fst g)" and "\<not> nonfinite v"
  shows "\<exists>g'. set_node_input nid f v g = Inr g' \<and> wf_graph g'"
proof -
  from assms(1,2) obtain node where n: "map_of g nid = Some node" and w: "wf_node node"
    by (rule wf_graph_lookup)
  from w obtain attrs ins where node: "node = JObj attrs"
    and i: "map_of attrs ''inputs'' = Some (JObj ins)"
    and c: "is_str (dict_get attrs ''class_type'' (JStr ''''))"
    and f: "list_all (\<lambda>v. \<not> nonfinite v) (map snd ins)"
    by (rule wf_node_cases)
  let ?node' = "JObj (AList.update ''inputs'' (JObj (AList.update f v ins)) attrs)"
  from f assms(3) have "list_all (\<lambda>v. \<not> nonfinite v) (map snd (AList.update f v ins))"
    by (rule list_all_snd_update)
  with c have "wf_node ?node'"
    by (simp add: wf_node_def update_conv' dict_get_def)
  with assms(1) have "wf_graph (AList.update nid ?node' g)"
    unfolding wf_graph_def by (rule list_all_snd_update)
  with n node i show ?thesis by (simp add: set_node_input_def)
qed

lemma prompt_step_total:
  "wf_graph g \<Longrightarrow> \<exists>g'. prompt_step n f p g = Inr g' \<and> wf_graph g'"
  using set_node_input_total [of g "the n" "JStr p" f]
  by (auto simp: prompt_step_def)

lemma image_step_total:
  "wf_graph g \<Longrightarrow> \<exists>g'. image_step img n g = Inr g' \<and> wf_graph g'"
  using set_node_input_total [of g "the n" "JStr (the img)" "''image''"]
  by (auto simp: image_step_def)

lemma seed_step_total:
  assumes "wf_graph g"
  shows "\<exists>g'. seed_step S sid g = Inr g' \<and> wf_graph g'"
proof (cases "sid \<in> set (map fst g)")
  case True
  with assms obtain node where n: "map_of g sid = Some node" and w: "wf_node node"
    by (rule wf_graph_lookup)
  from w obtain attrs ins where node: "node = JObj attrs"
    and i: "map_of attrs ''inputs'' = Some (JObj ins)"
    by (rule wf_node_cases)
  from i have "''inputs'' \<in> set (map fst attrs)" by (rule map_of_key_in)
  with n node set_node_input_total [OF assms True, of "JInt S" "''seed''"]
  show ?thesis by (simp add: seed_step_def)
next
  case False
  then have "map_of g sid = None" by (simp add: map_of_eq_None_iff)
  with assms show ?thesis by (simp add: seed_step_def)
qed

lemma run_seed_steps_total:
  "wf_graph g \<Longrightarrow>
   \<exists>g'. run_steps (map (seed_step S) sids @ [image_step img n]) g = (None, g') \<and> wf_graph g'"
proof (induction sids arbitrary: g)
  case Nil
  with image_step_total [of g img n] show ?case by auto
next
  case (Cons s sids)
  from seed_step_total [OF Cons.prems, of S s] obtain g1
    where "seed_step S s g = Inr g1" "wf_graph g1" by blast
  with Cons.IH [of g1] show ?case by auto
qed

lemma run_prompt_steps_total:
  assumes "wf_graph g"
  shows "\<exists>g'. run_steps [prompt_step n1 f1 p1, prompt_step n2 f2 p2] g = (None, g') \<and> wf_graph g'"
proof -
  from prompt_step_total [OF assms, of n1 f1 p1] obtain g1
    where 1: "prompt_step n1 f1 p1 g = Inr g1" "wf_graph g1" by blast
  from prompt_step_total [OF 1(2), of n2 f2 p2] obtain g2
    where 2: "prompt_step n2 f2 p2 g1 = Inr g2" "wf_graph g2" by blast
  from 1 2 show ?thesis by simp
qed

lemma set_node_input_copyable:
  assumes "set_node_input nid f v g = Inr g'" and "json_error room (JObj g) = None"
    and "\<And>r. json_error r v = None"
  shows "json_error room (JObj g') = None"
proof -
  from assms(1) obtain attrs ins where n: "map_of g nid = Some (JObj attrs)"
    and i: "map_of attrs ''inputs'' = Some (JObj ins)"
    and g': "g' = AList.update nid
               (JObj (AList.update ''inputs'' (JObj (AList.update f v ins)) attrs)) g"
    by (auto simp: set_node_input_def split: option.splits json.splits)
  from json_error_inputs [OF assms(2) n i] assms(3)
  have "list_all (\<lambda>v. json_error (room - 1 - 1 - 1) v = None) (map snd (AList.update f v ins))"
    by (rule list_all_snd_update)
  from json_error_input_update [OF assms(2) n i this] g' show ?thesis by simp
qed

lemma prompt_step_copyable:
  "prompt_step n f p g = Inr g' \<Longrightarrow> json_error room (JObj g) = None \<Longrightarrow>
   json_error room (JObj g') = None"
  using set_node_input_copyable [of "the n" f "JStr p" g g' room]
  by (auto simp: prompt_step_def split: if_splits)

lemma image_step_copyable:
  "image_step img n g = Inr g' \<Longrightarrow> json_error room (JObj g) = None \<Longrightarrow>
   json_error room (JObj g') = None"
  using set_node_input_copyable [of "the n" "''image''" "JStr (the img)" g g' room]
  by (auto simp: image_step_def split: if_splits)

lemma seed_step_copyable:
  assumes "seed_step S sid g = Inr g'" and "wf_graph g" and "json_error room (JObj g) = None"
    and "\<not> int_too_long S"
  shows "json_error room (JObj g') = None"
proof (cases "sid \<in> set (map fst g)")
  case True
  with assms(2) obtain node where n: "map_of g sid = Some node" and w: "wf_node node"
    by (rule wf_graph_lookup)
  from w obtain attrs ins where node: "node = JObj attrs"
    and i: "map_of attrs ''inputs'' = Some (JObj ins)"
    by (rule wf_node_cases)
  from i have "''inputs'' \<in> set (map fst attrs)" by (rule map_of_key_in)
  with n node assms(1) have "set_node_input sid ''seed'' (JInt S) g = Inr g'"
    by (simp add: seed_step_def)
  from set_node_input_copyable [OF this assms(3)] assms(4) show ?thesis by simp
next
  case False
  then have "map_of g sid = None" by (simp add: map_of_eq_None_iff)
  with assms(1,3) show ?thesis by (simp add: seed_step_def)
qed

lemma run_seed_steps_copyable:
  "run_steps (map (seed_step S) sids @ [image_step img n]) g = (None, g') \<Longrightarrow> wf_graph g \<Longrightarrow>
   json_error room (JObj g) = None \<Longrightarrow> \<not> int_too_long S \<Longrightarrow>
   json_error room (JObj g') = None"
proof (induction sids arbitrary: g)
  case Nil
  then show ?case
    by (auto simp del: json_error.simps dest: image_step_copyable split: sum.splits)
next
  case (Cons s sids)
  from Cons.prems(1) obtain g1 where s1: "seed_step S s g = Inr g1"
    and r: "run_steps (map (seed_step S) sids @ [image_step img n]) g1 = (None, g')"
    by (auto split: sum.splits)
  from seed_step_total [OF Cons.prems(2), of S s] s1 have w: "wf_graph g1" by simp
  from seed_step_copyable [OF s1 Cons.prems(2,3,4)] have "json_error room (JObj g1) = None" .
  from Cons.IH [OF r w this Cons.prems(4)] show ?case .
qed

lemma run_prompt_steps_copyable:
  "run_steps [prompt_step n1 f1 p1, prompt_step n2 f2 p2] g = (None, g') \<Longrightarrow>
   json_error room (JObj g) = None \<Longrightarrow> json_error room (JObj g') = None"
  by (auto simp del: json_error.simps dest!: prompt_step_copyable [where room = room]
      split: sum.splits)

lemma prepare_workflow_cases:
  assumes "workflows w idx = Some info"
    and "prepare_workflow w idx pos neg (Some S) img = (Inr (a, used, n), w')"
  obtains d1 d2 where
    "run_steps [prompt_step (positive_prompt_node (node_mapping info))
                  (positive_prompt_field (node_mapping info)) pos,
                prompt_step (negative_prompt_node (node_mapping info))
                  (negative_prompt_field (node_mapping info)) neg]
       (heap w (workflow_data info)) = (None, d1)"
    "run_steps (map (seed_step S) (sampler_nodes (node_mapping info)) @
                [image_step img (load_image_node (node_mapping info))]) d1 = (None, d2)"
    "a = Some (next_free w)" "used = Some S" "n = Some neg" "heap w' (next_free w) = d2"
  using assms
  by (auto simp: prepare_workflow_def deepcopy_def Let_def simp del: run_steps.simps
      split: prod.splits option.splits if_splits)

lemma prepare_workflow_total:
  assumes "workflows w idx = Some info" and "wf_graph (heap w (workflow_data info))"
    and "deepcopy (deepcopy_room w) (heap w (workflow_data info)) = Inr (heap w (workflow_data info))"
  shows "\<exists>w'. prepare_workflow w idx pos neg (Some S) img =
                 (Inr (Some (next_free w), Some S, Some neg), w')
               \<and> wf_graph (heap w' (next_free w))
               \<and> (\<forall>room. json_error room (JObj (heap w (workflow_data info))) = None \<longrightarrow>
                    \<not> int_too_long S \<longrightarrow> json_error room (JObj (heap w' (next_free w))) = None)"
proof -
  let ?m = "node_mapping info"
  from run_prompt_steps_total [OF assms(2)] obtain d1
    where 1: "run_steps [prompt_step (positive_prompt_node ?m) (positive_prompt_field ?m) pos,
                prompt_step (negative_prompt_node ?m) (negative_prompt_field ?m) neg]
               (heap w (workflow_data info)) = (None, d1)" and w1: "wf_graph d1"
    by blast
  from run_seed_steps_total [OF w1] obtain d2
    where 2: "run_steps (map (seed_step S) (sampler_nodes ?m) @
                [image_step img (load_image_node ?m)]) d1 = (None, d2)" and w2: "wf_graph d2"
    by blast
  have c: "json_error room (JObj d2) = None"
    if "json_error room (JObj (heap w (workflow_data info))) = None" "\<not> int_too_long S" for room
    using run_seed_steps_copyable [OF 2 w1 run_prompt_steps_copyable [OF 1 that(1)] that(2)] .
  from assms(1,3) 1 2 w2 c show ?thesis
    by (simp add: prepare_workflow_def Let_def del: run_steps.simps json_error.simps)
qed

text \<open>
  \<^verbatim>\<open>prepare_workflow\<close> raises, and allocates nothing, on a template that is nested deeper
  than \<^verbatim>\<open>copy.deepcopy\<close> can go.
\<close>

lemma prepare_raises_on_deep_template:
  "prepare_workflow (ex_world\<lparr>deepcopy_room := 3\<rparr>) 1 positive_prompt negative_prompt seed img =
     (Inl RecursionError, ex_world\<lparr>deepcopy_room := 3\<rparr>)"
  by (simp add: prepare_workflow_def deepcopy_def ex_world_def ex_info_def ex_template_def)

section \<open>The tracer and the classifier: chains and totality\<close>

lemmas eval_classify = analyze_workflow_nodes_def classify_clip_nodes_def by_links_def
  by_order_def by_text_def by_title_def assigned_def node_text_def node_title_def
  link_polarity_def analyze_node_def default_mapping_def in_types_def dict_get_def truthy_id_def
  CLIP_TEXT_ENCODE_TYPES_def PASSTHROUGH_TYPES_def LATENT_IMAGE_TYPES_def SAMPLER_TYPES_def
  LOAD_IMAGE_TYPES_def OUTPUT_TYPES_def TRT_LOADER_TYPES_def negative_keywords_def
  positive_keywords_def lower_def lower_char_def sublist_code Let_def

lemmas eval_trace = ex_chain_def reroute_def dict_get_def in_types_def
  CLIP_TEXT_ENCODE_TYPES_def PASSTHROUGH_TYPES_def Let_def

lemma passthrough_chain_SucE:
  assumes "passthrough_chain repr wd link_ref (Suc k) target"
  obtains first rest node inputs v
  where "link_ref = JList (first # rest)"
    and "map_of wd (py_str repr first) = Some (JObj node)"
    and "in_types (dict_get node ''class_type'' (JStr '''')) PASSTHROUGH_TYPES"
    and "dict_get node ''inputs'' (JObj []) = JObj inputs"
    and "find is_link (map snd inputs) = Some v"
    and "passthrough_chain repr wd v k target"
proof -
  from assms obtain first rest where l: "link_ref = JList (first # rest)"
    by (cases link_ref) (auto split: list.splits)
  from assms l obtain s where s: "map_of wd (py_str repr first) = Some s"
    by (cases "map_of wd (py_str repr first)") auto
  from assms l s obtain node where n: "s = JObj node"
    by (cases s) auto
  from assms l s n
  have p: "in_types (dict_get node ''class_type'' (JStr '''')) PASSTHROUGH_TYPES"
    by simp
  from assms l s n obtain inputs where i: "dict_get node ''inputs'' (JObj []) = JObj inputs"
    by (cases "dict_get node ''inputs'' (JObj [])") auto
  from assms l s n i obtain v where f: "find is_link (map snd inputs) = Some v"
    by (cases "find is_link (map snd inputs)") auto
  from assms l s n i f have "passthrough_chain repr wd v k target" by simp
  with l s n p i f that show thesis by blast
qed

lemma not_target_if_passthrough:
  "set target_types \<inter> set PASSTHROUGH_TYPES = {} \<Longrightarrow> in_types c PASSTHROUGH_TYPES \<Longrightarrow>
   \<not> in_types c target_types"
  by (auto simp: in_types_def split: json.splits)

lemma trace_chain:
  "passthrough_chain repr wd link_ref k target \<Longrightarrow>
   set target_types \<inter> set PASSTHROUGH_TYPES = {} \<Longrightarrow>
   trace_link_source repr link_ref wd target_types d =
     Inr (if int k < d then Some target else None)"
proof (induction k arbitrary: link_ref d)
  case 0
  from 0(1) obtain first rest node
    where l: "link_ref = JList (first # rest)" and t: "py_str repr first = target"
      and n: "map_of wd target = Some (JObj node)"
      and p: "\<not> in_types (dict_get node ''class_type'' (JStr '''')) PASSTHROUGH_TYPES"
    by (auto split: json.splits list.splits option.splits)
  then show ?case
    by (subst trace_link_source.simps) (simp add: Let_def)
next
  case (Suc k)
  from Suc.prems(1) obtain first rest node inputs v
    where l: "link_ref = JList (first # rest)"
      and n: "map_of wd (py_str repr first) = Some (JObj node)"
      and p: "in_types (dict_get node ''class_type'' (JStr '''')) PASSTHROUGH_TYPES"
      and i: "dict_get node ''inputs'' (JObj []) = JObj inputs"
      and f: "find is_link (map snd inputs) = Some v"
      and c: "passthrough_chain repr wd v k target"
    by (rule passthrough_chain_SucE)
  from not_target_if_passthrough [OF Suc.prems(2) p]
  have nt: "\<not> in_types (dict_get node ''class_type'' (JStr '''')) target_types" .
  show ?case
  proof (cases "d \<le> 0")
    case True
    then show ?thesis by simp
  next
    case False
    from Suc.IH [OF c Suc.prems(2), of "d - 1"]
    have "trace_link_source repr v wd target_types (d - 1) =
            Inr (if int k < d - 1 then Some target else None)" .
    with False l n p i f nt show ?thesis
      by (subst trace_link_source.simps) (auto simp: Let_def)
  qed
qed

lemma clip_not_passthrough: "set CLIP_TEXT_ENCODE_TYPES \<inter> set PASSTHROUGH_TYPES = {}"
  by (simp add: CLIP_TEXT_ENCODE_TYPES_def PASSTHROUGH_TYPES_def)

lemma ex_chain10: "passthrough_chain ex_repr ex_chain (JList [JStr ''r1'', JInt 0]) 10 ''c''"
  by (simp add: eval_trace eval_nat_numeral)

lemma ex_chain9: "passthrough_chain ex_repr ex_chain (JList [JStr ''r2'', JInt 0]) 9 ''c''"
  by (simp add: eval_trace eval_nat_numeral)

lemma ex_classified: "analyze_workflow_nodes repr (JObj ex_template) = Inr ex_mapping"
  by (simp add: eval_classify ex_template_def ex_mapping_def)



















lemma analyze_node_candidates:
  assumes "analyze_node (nid, node) (m, cs) = (m', cs')" and "c \<in> set cs'"
  shows "c \<in> set cs \<or>
         (fst c = nid \<and> node = JObj (snd c) \<and>
          in_types (dict_get (snd c) ''class_type'' (JStr [])) CLIP_TEXT_ENCODE_TYPES)"
  using assms
  by (auto simp: analyze_node_def Let_def split: json.splits if_splits)

lemma fold_analyze_candidates:
  "fold analyze_node xs (m, cs) = (m', cs') \<Longrightarrow> c \<in> set cs' \<Longrightarrow>
   c \<in> set cs \<or>
   ((fst c, JObj (snd c)) \<in> set xs \<and>
    in_types (dict_get (snd c) ''class_type'' (JStr [])) CLIP_TEXT_ENCODE_TYPES)"
proof (induction xs arbitrary: m cs)
  case Nil
  then show ?case by simp
next
  case (Cons x xs)
  obtain nid node where x: "x = (nid, node)" by (cases x)
  obtain m1 cs1 where s: "analyze_node (nid, node) (m, cs) = (m1, cs1)"
    by (cases "analyze_node (nid, node) (m, cs)")
  from Cons.prems s x have "fold analyze_node xs (m1, cs1) = (m', cs')" by simp
  from Cons.IH [OF this Cons.prems(2)] analyze_node_candidates [OF s, of c] x
  show ?case by auto
qed

lemma passthrough_not_candidate:
  assumes "distinct (map fst wd)" and "map_of wd nid = Some (JObj node)"
    and "in_types (dict_get node ''class_type'' (JStr [])) PASSTHROUGH_TYPES"
  shows "nid \<notin> set (map fst (snd (fold analyze_node wd (default_mapping, []))))"
proof
  assume "nid \<in> set (map fst (snd (fold analyze_node wd (default_mapping, []))))"
  then obtain c where c: "c \<in> set (snd (fold analyze_node wd (default_mapping, [])))"
    and f: "fst c = nid" by auto
  obtain m' cs' where r: "fold analyze_node wd (default_mapping, []) = (m', cs')"
    by (cases "fold analyze_node wd (default_mapping, [])")
  from fold_analyze_candidates [OF r, of c] c r f
  have "(nid, JObj (snd c)) \<in> set wd"
    and t: "in_types (dict_get (snd c) ''class_type'' (JStr [])) CLIP_TEXT_ENCODE_TYPES"
    by simp_all
  with assms(1,2) have "snd c = node" by simp
  with t not_target_if_passthrough [OF clip_not_passthrough assms(3)] show False by simp
qed

lemma for_each_preserves:
  assumes "\<And>x s s'. body x s = Inr s' \<Longrightarrow> f s' = f s"
  shows "for_each body xs s = Inr s' \<Longrightarrow> f s' = f s"
proof (induction xs arbitrary: s)
  case Nil
  then show ?case by simp
next
  case (Cons x xs)
  from Cons.prems obtain s1 where 1: "body x s = Inr s1" and 2: "for_each body xs s1 = Inr s'"
    by (auto split: sum.splits)
  from Cons.IH [OF 2] assms [OF 1] show ?case by simp
qed

lemma by_title_samplers: "by_title x m = Inr m' \<Longrightarrow> sampler_nodes m' = sampler_nodes m"
  by (auto simp: by_title_def split: prod.splits if_splits sum.splits)

lemma by_text_samplers: "by_text x m = Inr m' \<Longrightarrow> sampler_nodes m' = sampler_nodes m"
  by (auto simp: by_text_def split: prod.splits if_splits sum.splits)

lemma by_order_samplers: "by_order x m = Inr m' \<Longrightarrow> sampler_nodes m' = sampler_nodes m"
  by (auto simp: by_order_def split: prod.splits if_splits)

lemma by_links_samplers:
  "by_links repr cs m wd = Inr m' \<Longrightarrow> sampler_nodes m' = sampler_nodes m"
  by (auto simp: by_links_def Let_def split: if_splits option.splits json.splits sum.splits)

lemma classify_clip_nodes_samplers:
  assumes "classify_clip_nodes repr cs m wd = Inr m'"
  shows "sampler_nodes m' = sampler_nodes m"
proof (cases "\<exists>a b rest. cs = a # b # rest")
  case False
  with assms show ?thesis
    by (cases cs; cases "tl cs") (auto simp: classify_clip_nodes_def)
next
  case True
  then obtain a b rest where cs: "cs = a # b # rest" by blast
  from assms cs obtain linked where l: "by_links repr cs m wd = Inr linked"
    by (auto simp: classify_clip_nodes_def split: sum.splits)
  show ?thesis
  proof (cases "truthy_id (positive_prompt_node linked) \<and> truthy_id (negative_prompt_node linked)")
    case True
    with assms cs l have "m' = linked" by (simp add: classify_clip_nodes_def)
    with by_links_samplers [OF l] show ?thesis by simp
  next
    case False
    with assms cs l obtain titled texted
      where 1: "for_each by_title cs linked = Inr titled"
        and 2: "for_each by_text cs titled = Inr texted"
        and 3: "for_each by_order cs texted = Inr m'"
      by (auto simp: classify_clip_nodes_def split: sum.splits)
    from for_each_preserves [of by_title sampler_nodes, OF by_title_samplers 1]
      for_each_preserves [of by_text sampler_nodes, OF by_text_samplers 2]
      for_each_preserves [of by_order sampler_nodes, OF by_order_samplers 3]
      by_links_samplers [OF l]
    show ?thesis by simp
  qed
qed

lemma analyze_node_samplers:
  "analyze_node (nid, node) (m, cs) = (m', cs') \<Longrightarrow>
   set (sampler_nodes m') \<subseteq> insert nid (set (sampler_nodes m))"
  by (auto simp: analyze_node_def Let_def split: json.splits if_splits)

lemma fold_analyze_samplers:
  "fold analyze_node xs (m, cs) = (m', cs') \<Longrightarrow>
   set (sampler_nodes m') \<subseteq> set (sampler_nodes m) \<union> set (map fst xs)"
proof (induction xs arbitrary: m cs)
  case Nil
  then show ?case by simp
next
  case (Cons x xs)
  obtain nid node where x: "x = (nid, node)" by (cases x)
  obtain m1 cs1 where s: "analyze_node (nid, node) (m, cs) = (m1, cs1)"
    by (cases "analyze_node (nid, node) (m, cs)")
  from Cons.IH [of m1 cs1] Cons.prems s x analyze_node_samplers [OF s] show ?case by auto
qed

lemma analyze_samplers_are_nodes:
  assumes "analyze_workflow_nodes repr (JObj g) = Inr m"
  shows "set (sampler_nodes m) \<subseteq> set (map fst g)"
proof -
  obtain m0 cs where f: "fold analyze_node g (default_mapping, []) = (m0, cs)"
    by (cases "fold analyze_node g (default_mapping, [])")
  with assms have "classify_clip_nodes repr cs m0 g = Inr m"
    by (simp add: analyze_workflow_nodes_def)
  from classify_clip_nodes_samplers [OF this] fold_analyze_samplers [OF f]
  show ?thesis by (simp add: default_mapping_def)
qed

section \<open>The orchestrator: a record without images\<close>

lemmas eval_execute = execute_workflow_def find_target_image_def history_outcome_def
  is_output_def truthy_id_def dict_get_def Let_def
  ex_history_no_image_def ex_history_image_def ex_history_error_def ex_fetch_fails_def

lemma scan_outputs_no_images:
  "list_all no_images outs \<Longrightarrow> scan_outputs outs None = Inr None"
proof (induction outs)
  case Nil
  then show ?case by simp
next
  case (Cons out outs)
  from Cons.prems obtain kvs where o: "out = JObj kvs"
    by (cases out) (auto simp: no_images_def)
  show ?case
  proof (cases "map_of kvs ''images''")
    case None
    then have "''images'' \<notin> set (map fst kvs)" by (simp add: map_of_eq_None_iff)
    with Cons o show ?thesis by simp
  next
    case (Some v)
    then have "''images'' \<in> set (map fst kvs)" by (rule map_of_key_in)
    moreover from Cons.prems o Some have "py_iter v = Inr []" by (simp add: no_images_def)
    ultimately show ?thesis using Cons o Some by (simp add: is_output_def)
  qed
qed

section \<open>The claims\<close>

text \<open>
  Claim C1, amended. For a template of the registry and a caller seed \<open>S\<close> other than the
  sentinel \<open>-1\<close>: when \<^verbatim>\<open>prepare_workflow\<close> returns, the seed it returns is \<open>S\<close>, and when the
  enforcer returns on the prepared graph, every node of the mapping's sampler list that the
  template holds carries exactly \<open>S\<close> in its \<^verbatim>\<open>seed\<close> field. On a template whose nodes are
  all well formed and that \<^verbatim>\<open>copy.deepcopy\<close> can copy, \<^verbatim>\<open>prepare_workflow\<close> returns; the
  enforcer then returns on the prepared graph when the JSON round trip raises nothing on the
  template and \<open>S\<close> has no more than 4300 digits. When the mapping is the classification of
  the template, the template holds every node of the sampler list.
\<close>
theorem prepare_then_enforce_carries_seed:
  assumes "workflows w idx = Some info" and "S \<noteq> - 1"
  shows "(\<forall>a used n w'.
            prepare_workflow w idx pos neg (Some S) img = (Inr (a, used, n), w') \<longrightarrow>
            used = Some S \<and> a = Some (next_free w) \<and>
            (\<forall>room e g' rep e'.
               enforce_deterministic_workflow room (heap w' (next_free w)) e = Inr (g', rep, e') \<longrightarrow>
               (\<forall>sid\<in>set (sampler_nodes (node_mapping info)).
                  sid \<in> set (map fst (heap w (workflow_data info))) \<longrightarrow> has_seed S g' sid)))
       \<and> (wf_graph (heap w (workflow_data info)) \<and>
          deepcopy (deepcopy_room w) (heap w (workflow_data info)) =
            Inr (heap w (workflow_data info)) \<longrightarrow>
            (\<exists>w'. prepare_workflow w idx pos neg (Some S) img =
                     (Inr (Some (next_free w), Some S, Some neg), w') \<and>
                   (\<forall>room e.
                      json_roundtrip room (heap w (workflow_data info)) =
                        Inr (heap w (workflow_data info)) \<and> \<not> int_too_long S \<longrightarrow>
                      (\<exists>g' rep e'.
                         enforce_deterministic_workflow room (heap w' (next_free w)) e =
                           Inr (g', rep, e')))))
       \<and> (\<forall>repr.
            analyze_workflow_nodes repr (JObj (heap w (workflow_data info))) =
              Inr (node_mapping info) \<longrightarrow>
            set (sampler_nodes (node_mapping info)) \<subseteq> set (map fst (heap w (workflow_data info))))"
proof (intro conjI allI impI ballI)
  fix a used n w'
  assume p: "prepare_workflow w idx pos neg (Some S) img = (Inr (a, used, n), w')"
  from assms(1) p show "used = Some S" and "a = Some (next_free w)"
    by (rule prepare_workflow_cases; simp)+
  fix room e g' rep e' sid
  assume en: "enforce_deterministic_workflow room (heap w' (next_free w)) e = Inr (g', rep, e')"
    and sid: "sid \<in> set (sampler_nodes (node_mapping info))"
    and k: "sid \<in> set (map fst (heap w (workflow_data info)))"
  from assms(1) p obtain d1 d2 where
    1: "run_steps [prompt_step (positive_prompt_node (node_mapping info))
                  (positive_prompt_field (node_mapping info)) pos,
                prompt_step (negative_prompt_node (node_mapping info))
                  (negative_prompt_field (node_mapping info)) neg]
       (heap w (workflow_data info)) = (None, d1)"
    and 2: "run_steps (map (seed_step S) (sampler_nodes (node_mapping info)) @
                [image_step img (load_image_node (node_mapping info))]) d1 = (None, d2)"
    and h: "heap w' (next_free w) = d2"
    by (rule prepare_workflow_cases)
  from run_prompt_steps_keys [OF 1] k have "sid \<in> set (map fst d1)" by simp
  from run_seed_steps_sets [OF 2 sid this] have "has_seed S d2 sid" .
  with en h assms(2) show "has_seed S g' sid" by (simp add: enforce_keeps_seed)
next
  assume "wf_graph (heap w (workflow_data info)) \<and>
          deepcopy (deepcopy_room w) (heap w (workflow_data info)) =
            Inr (heap w (workflow_data info))"
  then have wfg: "wf_graph (heap w (workflow_data info))"
    and dc: "deepcopy (deepcopy_room w) (heap w (workflow_data info)) =
               Inr (heap w (workflow_data info))" by simp_all
  from prepare_workflow_total [OF assms(1) wfg dc, of pos neg S img] obtain w'
    where p: "prepare_workflow w idx pos neg (Some S) img =
                 (Inr (Some (next_free w), Some S, Some neg), w')"
      and w2: "wf_graph (heap w' (next_free w))"
      and c: "\<forall>room. json_error room (JObj (heap w (workflow_data info))) = None \<longrightarrow>
                \<not> int_too_long S \<longrightarrow> json_error room (JObj (heap w' (next_free w))) = None"
    by blast
  have "\<exists>g' rep e'. enforce_deterministic_workflow room (heap w' (next_free w)) e =
                      Inr (g', rep, e')"
    if "json_roundtrip room (heap w (workflow_data info)) = Inr (heap w (workflow_data info))
        \<and> \<not> int_too_long S" for room e
  proof -
    from that c have "json_roundtrip room (heap w' (next_free w)) = Inr (heap w' (next_free w))"
      by (simp add: json_roundtrip_Inr del: json_error.simps)
    with w2 show ?thesis unfolding wf_graph_def by (rule enforce_total)
  qed
  with p show "\<exists>w'. prepare_workflow w idx pos neg (Some S) img =
                     (Inr (Some (next_free w), Some S, Some neg), w') \<and>
                   (\<forall>room e.
                      json_roundtrip room (heap w (workflow_data info)) =
                        Inr (heap w (workflow_data info)) \<and> \<not> int_too_long S \<longrightarrow>
                      (\<exists>g' rep e'.
                         enforce_deterministic_workflow room (heap w' (next_free w)) e =
                           Inr (g', rep, e')))"
    by blast
next
  fix repr
  assume "analyze_workflow_nodes repr (JObj (heap w (workflow_data info))) = Inr (node_mapping info)"
  then show "set (sampler_nodes (node_mapping info)) \<subseteq> set (map fst (heap w (workflow_data info)))"
    by (rule analyze_samplers_are_nodes)
qed

theorem prepare_then_enforce_carries_seed_witness:
  "workflows ex_world 1 = Some ex_info \<and> (7::int) \<noteq> - 1 \<and> wf_graph ex_template \<and>
   deepcopy (deepcopy_room ex_world) ex_template = Inr ex_template \<and>
   json_roundtrip 64 ex_template = Inr ex_template \<and> \<not> int_too_long 7 \<and>
   analyze_workflow_nodes ex_repr (JObj ex_template) = Inr (node_mapping ex_info) \<and>
   set (sampler_nodes (node_mapping ex_info)) \<subseteq> set (map fst ex_template) \<and>
   ''3'' \<in> set (sampler_nodes (node_mapping ex_info)) \<and>
   (\<exists>w' g' rep e'.
      prepare_workflow ex_world 1 ''a cat'' ''blurry'' (Some 7) None =
        (Inr (Some 1, Some 7, Some ''blurry''), w') \<and>
      enforce_deterministic_workflow 64 (heap w' 1) ex_entropy = Inr (g', rep, e') \<and>
      has_seed 7 g' ''3'')"
proof -
  have i: "workflows ex_world 1 = Some ex_info" by (simp add: ex_world_def)
  have n: "(7::int) \<noteq> - 1" by simp
  have t: "heap ex_world (workflow_data ex_info) = ex_template" "next_free ex_world = 1"
    by (simp_all add: ex_world_def ex_info_def)
  have w: "wf_graph ex_template"
    by (simp add: wf_graph_def wf_node_def ex_template_def dict_get_def)
  have d: "deepcopy (deepcopy_room ex_world) ex_template = Inr ex_template"
    by (simp add: deepcopy_def ex_world_def ex_template_def)
  have j: "json_roundtrip 64 ex_template = Inr ex_template"
    by (simp add: json_roundtrip_def ex_template_def short_int)
  have l: "\<not> int_too_long 7" by (simp add: short_int)
  have s: "''3'' \<in> set (sampler_nodes (node_mapping ex_info))"
    "''3'' \<in> set (map fst ex_template)"
    by (simp_all add: ex_info_def ex_mapping_def ex_template_def)
  note inst = prepare_then_enforce_carries_seed [OF i n, of "''a cat''" "''blurry''" None, unfolded t]
  from inst w d obtain w'
    where p: "prepare_workflow ex_world 1 ''a cat'' ''blurry'' (Some 7) None =
        (Inr (Some 1, Some 7, Some ''blurry''), w')"
      and r: "\<forall>room e. json_roundtrip room ex_template = Inr ex_template \<and> \<not> int_too_long 7 \<longrightarrow>
                (\<exists>g' rep e'. enforce_deterministic_workflow room (heap w' 1) e = Inr (g', rep, e'))"
    by blast
  from r j l obtain g' rep e'
    where e: "enforce_deterministic_workflow 64 (heap w' 1) ex_entropy = Inr (g', rep, e')"
    by blast
  from inst p e s have "has_seed 7 g' ''3''" by blast
  moreover have c: "analyze_workflow_nodes ex_repr (JObj ex_template) = Inr (node_mapping ex_info)"
    using ex_classified [of ex_repr] by (simp add: ex_info_def)
  moreover from inst c
  have "set (sampler_nodes (node_mapping ex_info)) \<subseteq> set (map fst ex_template)" by blast
  ultimately show ?thesis using i n w d j l s p e by blast
qed

text \<open>
  Claim C1 as stated fails at the caller seed \<open>-1\<close>: the preparer writes \<open>-1\<close> into the
  sampler and returns it, and the enforcer replaces it with a fresh draw.
\<close>
theorem prepare_then_enforce_sentinel_seed_replaced:
  "prepare_workflow ex_world 1 ''a cat'' ''blurry'' (Some (- 1)) None =
     (Inr (Some 1, Some (- 1), Some ''blurry''),
      ex_world\<lparr>heap := (heap ex_world)(1 := ex_prepared_sentinel), next_free := 2\<rparr>)
   \<and> enforce_deterministic_workflow 64 ex_prepared_sentinel ex_entropy =
       Inr (ex_enforced_sentinel, 100, ex_entropy)
   \<and> ''3'' \<in> set (sampler_nodes (node_mapping ex_info))
   \<and> has_seed 100 ex_enforced_sentinel ''3''
   \<and> \<not> has_seed (- 1) ex_enforced_sentinel ''3''"
proof (intro conjI)
  show "prepare_workflow ex_world 1 ''a cat'' ''blurry'' (Some (- 1)) None =
     (Inr (Some 1, Some (- 1), Some ''blurry''),
      ex_world\<lparr>heap := (heap ex_world)(1 := ex_prepared_sentinel), next_free := 2\<rparr>)"
    by (simp add: eval_prepare ex_prepared_sentinel_def)
  show "enforce_deterministic_workflow 64 ex_prepared_sentinel ex_entropy =
       Inr (ex_enforced_sentinel, 100, ex_entropy)"
    by (simp add: eval_enforce ex_prepared_sentinel_def ex_enforced_sentinel_def
        ex_entropy_def randint_def)
  show "''3'' \<in> set (sampler_nodes (node_mapping ex_info))"
    by (simp add: ex_info_def ex_mapping_def)
  show "has_seed 100 ex_enforced_sentinel ''3''"
    by (simp add: has_seed_def ex_enforced_sentinel_def node_input_def node_field_def)
  show "\<not> has_seed (- 1) ex_enforced_sentinel ''3''"
    by (simp add: has_seed_def ex_enforced_sentinel_def node_input_def node_field_def)
qed

text \<open>
  Claim C4. On a graph whose seed-named fields are all numbers other than \<open>-1\<close>, the enforcer,
  when it returns, has drawn no random number and returns the seed-named fields unchanged;
  a second run on its result returns the same graph and the same seed again. On a graph
  whose nodes are all well formed and on which the JSON round trip raises nothing, it
  returns.
\<close>
theorem enforce_idempotent_on_concrete_seeds:
  assumes "seeds_concrete g"
  shows "(\<forall>g1 s1 e1. enforce_deterministic_workflow room g e = Inr (g1, s1, e1) \<longrightarrow>
            e1 = e \<and> graph_seed_fields g1 = graph_seed_fields g \<and>
            (\<forall>e2. enforce_deterministic_workflow room g1 e2 = Inr (g1, s1, e2)))
       \<and> (wf_graph g \<and> json_roundtrip room g = Inr g \<longrightarrow>
            (\<exists>g1 s1 e1. enforce_deterministic_workflow room g e = Inr (g1, s1, e1)))"
proof (intro conjI allI impI)
  fix g1 s1 e1
  assume run: "enforce_deterministic_workflow room g e = Inr (g1, s1, e1)"
  then obtain ks ms where nodes: "enforce_nodes g (e, None, None) = Inr (g1, e1, ks, ms)"
    and s1: "s1 = final_seed ks ms"
    by (rule enforce_unfold)
  from enforce_nodes_concrete [OF nodes assms]
  show "e1 = e" and "graph_seed_fields g1 = graph_seed_fields g" by simp_all
  fix e2
  from enforce_nodes_concrete [OF nodes assms, of e2] s1 enforce_result_copyable [OF run]
  show "enforce_deterministic_workflow room g1 e2 = Inr (g1, s1, e2)"
    by (simp add: enforce_deterministic_workflow_def)
next
  assume "wf_graph g \<and> json_roundtrip room g = Inr g"
  then show "\<exists>g1 s1 e1. enforce_deterministic_workflow room g e = Inr (g1, s1, e1)"
    unfolding wf_graph_def by (simp add: enforce_total)
qed

theorem enforce_idempotent_on_concrete_seeds_witness:
  "seeds_concrete ex_template \<and> wf_graph ex_template \<and>
   json_roundtrip 64 ex_template = Inr ex_template \<and>
   enforce_deterministic_workflow 64 ex_template ex_entropy =
     Inr (ex_template_fixed, 42, ex_entropy) \<and>
   graph_seed_fields ex_template_fixed = graph_seed_fields ex_template \<and>
   enforce_deterministic_workflow 64 ex_template_fixed ex_entropy =
     Inr (ex_template_fixed, 42, ex_entropy)"
proof -
  have c: "seeds_concrete ex_template"
    by (simp add: seeds_concrete_def graph_seed_fields_def seed_fields_def node_field_def
        concrete_seed_def ex_template_def is_seed_key_def lower_def lower_char_def sublist_code)
  have t: "wf_graph ex_template"
    by (simp add: wf_graph_def wf_node_def ex_template_def dict_get_def)
  have j: "json_roundtrip 64 ex_template = Inr ex_template"
    by (simp add: json_roundtrip_def ex_template_def short_int)
  have r: "enforce_deterministic_workflow 64 ex_template ex_entropy =
             Inr (ex_template_fixed, 42, ex_entropy)"
    by (simp add: ex_template_def ex_template_fixed_def eval_enforce)
  from enforce_idempotent_on_concrete_seeds [OF c, of 64 ex_entropy] r c t j show ?thesis by blast
qed
text \<open>
  Claim C5 at a sampler whose seed is \<open>0\<close>, with the three levels of depth that the JSON round
  trip of the graph needs: \<^verbatim>\<open>ksampler_seed or main_seed or 0\<close> passes over the sampler's seed
  and reports the seed \<open>5\<close> of the other node.
\<close>
theorem enforce_reports_other_seed_when_sampler_seed_is_zero:
  "enforce_deterministic_workflow (Suc (Suc (Suc room))) ex_zero_seed_graph e =
     Inr (ex_zero_seed_graph, 5, e)"
  by (simp add: ex_zero_seed_graph_def eval_enforce)

text \<open>
  Claim C8. Whatever \<^verbatim>\<open>prepare_workflow\<close> is called with, and whether it returns or raises,
  the registry is the same afterwards and the graph object of every template holds the
  value it held before.
\<close>
theorem prepare_workflow_keeps_template:
  assumes "registry_allocated w"
    and "prepare_workflow w idx positive_prompt negative_prompt seed img = (r, w')"
  shows "workflows w' = workflows w \<and>
         (\<forall>i info. workflows w i = Some info \<longrightarrow>
            heap w' (workflow_data info) = heap w (workflow_data info))"
proof -
  have frame: "workflows w' = workflows w \<and> (\<forall>a. a \<noteq> next_free w \<longrightarrow> heap w' a = heap w a)"
    using assms(2)
    by (auto simp: prepare_workflow_def Let_def split: option.splits prod.splits sum.splits)
  moreover have "workflow_data info \<noteq> next_free w" if "workflows w i = Some info" for i info
    using assms(1) that unfolding registry_allocated_def by fastforce
  ultimately show ?thesis by blast
qed

theorem prepare_workflow_keeps_template_witness:
  "registry_allocated ex_world \<and>
   prepare_workflow ex_world 1 ''a cat'' ''blurry'' (Some (- 1)) None =
     (Inr (Some 1, Some (- 1), Some ''blurry''),
      ex_world\<lparr>heap := (heap ex_world)(1 := ex_prepared_sentinel), next_free := 2\<rparr>) \<and>
   workflows (ex_world\<lparr>heap := (heap ex_world)(1 := ex_prepared_sentinel), next_free := 2\<rparr>)
     = workflows ex_world \<and>
   workflows ex_world 1 = Some ex_info \<and>
   heap (ex_world\<lparr>heap := (heap ex_world)(1 := ex_prepared_sentinel), next_free := 2\<rparr>)
     (workflow_data ex_info) = ex_template \<and>
   heap (ex_world\<lparr>heap := (heap ex_world)(1 := ex_prepared_sentinel), next_free := 2\<rparr>) 1
     \<noteq> ex_template"
proof -
  let ?w' = "ex_world\<lparr>heap := (heap ex_world)(1 := ex_prepared_sentinel), next_free := 2\<rparr>"
  have a: "registry_allocated ex_world"
    by (simp add: registry_allocated_def ex_world_def ex_info_def)
  have i: "workflows ex_world 1 = Some ex_info" "heap ex_world (workflow_data ex_info) = ex_template"
    by (simp_all add: ex_world_def ex_info_def)
  have p: "prepare_workflow ex_world 1 ''a cat'' ''blurry'' (Some (- 1)) None =
             (Inr (Some 1, Some (- 1), Some ''blurry''), ?w')"
    by (simp add: eval_prepare ex_prepared_sentinel_def)
  have h: "heap ?w' 1 \<noteq> ex_template"
    by (simp add: ex_prepared_sentinel_def ex_template_def)
  from prepare_workflow_keeps_template [OF a p] i
  have "workflows ?w' = workflows ex_world \<and> heap ?w' (workflow_data ex_info) = ex_template"
    by metis
  with a p i h show ?thesis by blast
qed
text \<open>
  Claim C9. When the enforcer returns, the graph has the same node ids in the same order,
  and every node has every top-level field other than \<^verbatim>\<open>inputs\<close> and every input field
  that is neither seed-named nor \<^verbatim>\<open>control_after_generate\<close> exactly as before: present
  with its value, or absent. On a graph whose nodes are all well formed and on which the
  JSON round trip raises nothing, it returns.
\<close>
theorem enforce_changes_seeds_and_control_only:
  "(\<forall>g' s e'. enforce_deterministic_workflow room g e = Inr (g', s, e') \<longrightarrow>
      map fst g' = map fst g \<and>
      (\<forall>nid node. map_of g nid = Some node \<longrightarrow>
         (\<exists>node'. map_of g' nid = Some node' \<and>
            (\<forall>k. \<not> is_seed_key k \<longrightarrow> k \<noteq> ''control_after_generate'' \<longrightarrow>
                 node_input node' k = node_input node k) \<and>
            (\<forall>f. f \<noteq> ''inputs'' \<longrightarrow> node_field node' f = node_field node f))))
   \<and> (wf_graph g \<and> json_roundtrip room g = Inr g \<longrightarrow>
        (\<exists>g' s e'. enforce_deterministic_workflow room g e = Inr (g', s, e')))"
proof (intro conjI allI impI)
  fix g' s e'
  assume run: "enforce_deterministic_workflow room g e = Inr (g', s, e')"
  then obtain ks ms where n: "enforce_nodes g (e, None, None) = Inr (g', e', ks, ms)"
    by (rule enforce_unfold)
  from enforce_nodes_shape [OF n] show keys: "map fst g' = map fst g" by simp
  fix nid node
  assume node: "map_of g nid = Some node"
  from enforce_nodes_shape [OF n] map_of_enforced [OF _ _ node, of g']
  obtain node' where node': "map_of g' nid = Some node'" and en: "enforced_node node node'"
    by blast
  from en obtain a a' where step: "enforce_node node a = Inr (node', a')"
    unfolding enforced_node_def by blast
  have "\<forall>k. \<not> is_seed_key k \<longrightarrow> k \<noteq> ''control_after_generate'' \<longrightarrow>
           node_input node' k = node_input node k"
    using enforce_node_other_input [OF step] by blast
  moreover have "\<forall>f. f \<noteq> ''inputs'' \<longrightarrow> node_field node' f = node_field node f"
    using enforce_node_field [OF step] by blast
  ultimately show "\<exists>node'. map_of g' nid = Some node' \<and>
            (\<forall>k. \<not> is_seed_key k \<longrightarrow> k \<noteq> ''control_after_generate'' \<longrightarrow>
                 node_input node' k = node_input node k) \<and>
            (\<forall>f. f \<noteq> ''inputs'' \<longrightarrow> node_field node' f = node_field node f)"
    using node' by blast
next
  assume "wf_graph g \<and> json_roundtrip room g = Inr g"
  then show "\<exists>g' s e'. enforce_deterministic_workflow room g e = Inr (g', s, e')"
    unfolding wf_graph_def by (simp add: enforce_total)
qed

theorem enforce_changes_seeds_and_control_only_witness:
  "wf_graph ex_prepared_sentinel \<and>
   json_roundtrip 64 ex_prepared_sentinel = Inr ex_prepared_sentinel \<and>
   enforce_deterministic_workflow 64 ex_prepared_sentinel ex_entropy =
     Inr (ex_enforced_sentinel, 100, ex_entropy) \<and>
   map_of ex_prepared_sentinel ''3'' \<noteq> None \<and>
   \<not> is_seed_key ''steps'' \<and> ''steps'' \<noteq> ''control_after_generate'' \<and>
   ''class_type'' \<noteq> ''inputs'' \<and>
   map fst ex_enforced_sentinel = map fst ex_prepared_sentinel \<and>
   (\<exists>node'. map_of ex_enforced_sentinel ''3'' = Some node' \<and>
      node_input node' ''steps'' = Some (JInt 20) \<and>
      node_field node' ''class_type'' = Some (JStr ''KSampler''))"
proof -
  have w: "wf_graph ex_prepared_sentinel"
    by (simp add: wf_graph_def wf_node_def ex_prepared_sentinel_def dict_get_def)
  have j: "json_roundtrip 64 ex_prepared_sentinel = Inr ex_prepared_sentinel"
    by (simp add: json_roundtrip_def ex_prepared_sentinel_def short_int)
  have r: "enforce_deterministic_workflow 64 ex_prepared_sentinel ex_entropy =
       Inr (ex_enforced_sentinel, 100, ex_entropy)"
    by (simp add: eval_enforce ex_prepared_sentinel_def ex_enforced_sentinel_def
        ex_entropy_def randint_def)
  have n: "map_of ex_prepared_sentinel ''3'' =
     Some (JObj [(''class_type'', JStr ''KSampler''),
                    (''inputs'', JObj [(''seed'', JInt (- 1)), (''steps'', JInt 20),
                                       (''control_after_generate'', JStr ''randomize''),
                                       (''positive'', JList [JStr ''6'', JInt 0]),
                                       (''negative'', JList [JStr ''7'', JInt 0])])])"
    by (simp add: ex_prepared_sentinel_def)
  have k: "\<not> is_seed_key ''steps''" "''steps'' \<noteq> ''control_after_generate''"
    "''class_type'' \<noteq> ''inputs''"
    by (simp_all add: is_seed_key_def lower_def lower_char_def sublist_code)
  from enforce_changes_seeds_and_control_only [of 64 ex_prepared_sentinel ex_entropy] r n
  obtain node' where keys: "map fst ex_enforced_sentinel = map fst ex_prepared_sentinel"
    and node': "map_of ex_enforced_sentinel ''3'' = Some node'"
    and ins: "\<forall>k. \<not> is_seed_key k \<longrightarrow> k \<noteq> ''control_after_generate'' \<longrightarrow>
       node_input node' k = node_input (JObj [(''class_type'', JStr ''KSampler''),
                    (''inputs'', JObj [(''seed'', JInt (- 1)), (''steps'', JInt 20),
                                       (''control_after_generate'', JStr ''randomize''),
                                       (''positive'', JList [JStr ''6'', JInt 0]),
                                       (''negative'', JList [JStr ''7'', JInt 0])])]) k"
    and fs: "\<forall>f. f \<noteq> ''inputs'' \<longrightarrow>
       node_field node' f = node_field (JObj [(''class_type'', JStr ''KSampler''),
                    (''inputs'', JObj [(''seed'', JInt (- 1)), (''steps'', JInt 20),
                                       (''control_after_generate'', JStr ''randomize''),
                                       (''positive'', JList [JStr ''6'', JInt 0]),
                                       (''negative'', JList [JStr ''7'', JInt 0])])]) f"
    by blast
  from ins k have "node_input node' ''steps'' = Some (JInt 20)"
    by (simp add: node_input_def node_field_def)
  moreover from fs k have "node_field node' ''class_type'' = Some (JStr ''KSampler'')"
    by (simp add: node_field_def)
  ultimately show ?thesis using w j r n k keys node' by simp
qed

text \<open>
  Claim C10. \<^verbatim>\<open>prepare_workflow\<close> with an index that the registry does not hold returns
  \<^verbatim>\<open>(None, None, None)\<close>, raises nothing and leaves the whole state as it was.
\<close>
theorem prepare_workflow_unknown_index:
  "workflows w idx = None \<Longrightarrow>
   prepare_workflow w idx positive_prompt negative_prompt seed img = (Inr (None, None, None), w)"
  by (simp add: prepare_workflow_def)

theorem prepare_workflow_unknown_index_witness:
  "workflows ex_world 5 = None \<and>
   prepare_workflow ex_world 5 ''a cat'' ''blurry'' (Some 7) None = (Inr (None, None, None), ex_world)"
  using prepare_workflow_unknown_index [of ex_world 5 "''a cat''" "''blurry''" "Some 7" None]
  by (simp add: ex_world_def)




text \<open>
  Claim C3, amended. After a submission that returned a prompt id: a completed record in
  which no node output holds an image gives the failure \<^verbatim>\<open>NoOutputImage\<close>; a chosen image
  whose fetch returns nothing or no bytes gives the same failure \<^verbatim>\<open>NoOutputImage\<close>; an
  execution error of the poll loop gives the failure \<^verbatim>\<open>ExecError\<close>, which is another message.
\<close>
theorem execute_workflow_failure_messages:
  assumes "truthy_id prompt_id"
  shows "(\<forall>h outs msg.
            wait_for_completion (the prompt_id) t polls = Some (Inr (True, Some (JObj h), msg)) \<longrightarrow>
            map_of h ''outputs'' = Some (JObj outs) \<longrightarrow> list_all no_images (map snd outs) \<longrightarrow>
            execute_workflow (prompt_id, detected) polls get_image t known =
              Some (Inr (False, None, NoOutputImage, used_seed_of known detected)))
       \<and> (\<forall>result msg img.
            wait_for_completion (the prompt_id) t polls = Some (Inr (True, result, msg)) \<longrightarrow>
            find_target_image result = Inr (Some img) \<longrightarrow>
            get_image (filename img) (subfolder img) (folder_type img) \<in> {None, Some []} \<longrightarrow>
            execute_workflow (prompt_id, detected) polls get_image t known =
              Some (Inr (False, None, NoOutputImage, used_seed_of known detected)))
       \<and> (wait_for_completion (the prompt_id) t polls = Some (Inr (False, None, ExecError)) \<longrightarrow>
            execute_workflow (prompt_id, detected) polls get_image t known =
              Some (Inr (False, None, ExecError, used_seed_of known detected)))
       \<and> NoOutputImage \<noteq> ExecError"
proof (intro conjI allI impI)
  fix h outs msg
  assume w: "wait_for_completion (the prompt_id) t polls = Some (Inr (True, Some (JObj h), msg))"
    and o: "map_of h ''outputs'' = Some (JObj outs)" and n: "list_all no_images (map snd outs)"
  from o have "''outputs'' \<in> set (map fst h)" by (rule map_of_key_in)
  with o scan_outputs_no_images [OF n] have "find_target_image (Some (JObj h)) = Inr None"
    by (auto simp: find_target_image_def)
  with assms w show "execute_workflow (prompt_id, detected) polls get_image t known =
              Some (Inr (False, None, NoOutputImage, used_seed_of known detected))"
    by (simp add: execute_workflow_def used_seed_of_def)
next
  fix result msg img
  assume "wait_for_completion (the prompt_id) t polls = Some (Inr (True, result, msg))"
    and "find_target_image result = Inr (Some img)"
    and "get_image (filename img) (subfolder img) (folder_type img) \<in> {None, Some []}"
  with assms show "execute_workflow (prompt_id, detected) polls get_image t known =
              Some (Inr (False, None, NoOutputImage, used_seed_of known detected))"
    by (auto simp: execute_workflow_def used_seed_of_def)
next
  assume "wait_for_completion (the prompt_id) t polls = Some (Inr (False, None, ExecError))"
  with assms show "execute_workflow (prompt_id, detected) polls get_image t known =
              Some (Inr (False, None, ExecError, used_seed_of known detected))"
    by (simp add: execute_workflow_def used_seed_of_def)
qed simp

theorem execute_workflow_failure_messages_witness:
  "truthy_id (Some ''42'') \<and>
   wait_for_completion ''42'' 120 [Poll False None, Poll False (Some ex_history_no_image)] =
     Some (Inr (True, Some (JObj [(''outputs'', JObj [(''9'', JObj [])]),
                                  (''status'', JObj [(''status_str'', JStr ''success'')])]),
                ExecDone)) \<and>
   list_all no_images (map snd [(''9'', JObj [])]) \<and>
   execute_workflow (Some ''42'', Some 7) [Poll False None, Poll False (Some ex_history_no_image)]
     ex_fetch_fails 120 None = Some (Inr (False, None, NoOutputImage, Some 7)) \<and>
   execute_workflow (Some ''42'', Some 7) [Poll False None, Poll False (Some ex_history_image)]
     ex_fetch_fails 120 None = Some (Inr (False, None, NoOutputImage, Some 7)) \<and>
   wait_for_completion ''42'' 120 [Poll False (Some ex_history_error)] =
     Some (Inr (False, None, ExecError)) \<and>
   execute_workflow (Some ''42'', Some 7) [Poll False (Some ex_history_error)]
     ex_fetch_fails 120 None = Some (Inr (False, None, ExecError, Some 7))"
proof -
  let ?none = "[Poll False None, Poll False (Some ex_history_no_image)]"
  let ?image = "[Poll False None, Poll False (Some ex_history_image)]"
  let ?error = "[Poll False (Some ex_history_error)]"
  let ?completed = "JObj [(''outputs'',
                             JObj [(''9'', JObj [(''images'',
                                JList [JObj [(''filename'', JStr ''out.png''),
                                             (''subfolder'', JStr ''''),
                                             (''type'', JStr ''output'')]])])]),
                          (''status'', JObj [(''status_str'', JStr ''success'')])]"
  let ?img = "\<lparr>filename = JStr ''out.png'', subfolder = JStr '''', folder_type = JStr ''output''\<rparr>"
  have t: "truthy_id (Some ''42'')" by (simp add: truthy_id_def)
  have w1: "wait_for_completion (the (Some ''42'')) 120 ?none =
     Some (Inr (True, Some (JObj [(''outputs'', JObj [(''9'', JObj [])]),
                                  (''status'', JObj [(''status_str'', JStr ''success'')])]),
                ExecDone))"
    by (simp add: eval_execute)
  have n1: "list_all no_images (map snd [(''9'', JObj [])])"
    by (simp add: no_images_def)
  have w2: "wait_for_completion (the (Some ''42'')) 120 ?image = Some (Inr (True, Some ?completed, ExecDone))"
    by (simp add: eval_execute)
  have f2: "find_target_image (Some ?completed) = Inr (Some ?img)"
    by (simp add: eval_execute)
  have g2: "ex_fetch_fails (filename ?img) (subfolder ?img) (folder_type ?img) \<in> {None, Some []}"
    by (simp add: ex_fetch_fails_def)
  have w3: "wait_for_completion (the (Some ''42'')) 120 ?error = Some (Inr (False, None, ExecError))"
    by (simp add: eval_execute)
  have u: "used_seed_of None (Some 7) = Some 7" by (simp add: used_seed_of_def)
  have m1: "map_of [(''outputs'', JObj [(''9'', JObj [])]),
                    (''status'', JObj [(''status_str'', JStr ''success'')])] ''outputs''
              = Some (JObj [(''9'', JObj [])])" by simp
  from execute_workflow_failure_messages [OF t, of 120 ?none "Some 7" ex_fetch_fails None, unfolded u] w1 m1 n1
  have a: "execute_workflow (Some ''42'', Some 7) ?none ex_fetch_fails 120 None =
             Some (Inr (False, None, NoOutputImage, Some 7))"
    by blast
  from execute_workflow_failure_messages [OF t, of 120 ?image "Some 7" ex_fetch_fails None, unfolded u] w2 f2 g2
  have b: "execute_workflow (Some ''42'', Some 7) ?image ex_fetch_fails 120 None =
             Some (Inr (False, None, NoOutputImage, Some 7))"
    by blast
  from execute_workflow_failure_messages [OF t, of 120 ?error "Some 7" ex_fetch_fails None, unfolded u] w3
  have c: "execute_workflow (Some ''42'', Some 7) ?error ex_fetch_fails 120 None =
             Some (Inr (False, None, ExecError, Some 7))"
    by blast
  from t w1 n1 a b w3 c show ?thesis by simp
qed

text \<open>
  Claim C3 as stated fails: a completed record without an image and a completed record
  whose image cannot be fetched give the same outcome, message included.
\<close>
theorem execute_workflow_fetch_failure_not_distinct:
  "execute_workflow (Some ''42'', Some 7) [Poll False None, Poll False (Some ex_history_no_image)]
     ex_fetch_fails 120 None = Some (Inr (False, None, NoOutputImage, Some 7)) \<and>
   execute_workflow (Some ''42'', Some 7) [Poll False None, Poll False (Some ex_history_image)]
     ex_fetch_fails 120 None = Some (Inr (False, None, NoOutputImage, Some 7))"
  by (simp add: eval_execute)

text \<open>
  Claim C6, amended. For a reference that leads through \<open>k\<close> passthrough nodes to a node
  that is no passthrough node, and target types that hold no passthrough type (as the
  prompt-encode types), the tracer with the depth bound \<open>10\<close> returns that node when \<open>k \<le> 9\<close>
  and \<^verbatim>\<open>None\<close> when \<open>k \<ge> 10\<close>. In the second case the link step of the classifier, with the
  candidates that the scan of a graph with distinct node ids collects, assigns nothing and
  leaves the polarity as it was: the direct source of the reference is a passthrough node,
  and no passthrough node is a candidate.
\<close>
theorem trace_resolves_short_chains:
  assumes "passthrough_chain repr wd link_ref k target"
  shows "(set target_types \<inter> set PASSTHROUGH_TYPES = {} \<longrightarrow>
            (k \<le> 9 \<longrightarrow> trace_link_source repr link_ref wd target_types 10 = Inr (Some target)) \<and>
            (10 \<le> k \<longrightarrow> trace_link_source repr link_ref wd target_types 10 = Inr None))
       \<and> (10 \<le> k \<and> distinct (map fst wd) \<longrightarrow>
            link_polarity repr link_ref wd
              (set (map fst (snd (fold analyze_node wd (default_mapping, []))))) current
              = Inr current)"
proof (intro conjI impI)
  assume d: "set target_types \<inter> set PASSTHROUGH_TYPES = {}"
  { assume "k \<le> 9"
    with trace_chain [OF assms d, of 10]
    show "trace_link_source repr link_ref wd target_types 10 = Inr (Some target)" by simp }
  { assume "10 \<le> k"
    with trace_chain [OF assms d, of 10]
    show "trace_link_source repr link_ref wd target_types 10 = Inr None" by simp }
next
  assume "10 \<le> k \<and> distinct (map fst wd)"
  then have k: "10 \<le> k" and dist: "distinct (map fst wd)" by simp_all
  from k obtain j where "k = Suc j" by (cases k) auto
  with assms have "passthrough_chain repr wd link_ref (Suc j) target" by simp
  then obtain first rest node
    where l: "link_ref = JList (first # rest)"
      and n: "map_of wd (py_str repr first) = Some (JObj node)"
      and p: "in_types (dict_get node ''class_type'' (JStr [])) PASSTHROUGH_TYPES"
    by (rule passthrough_chain_SucE)
  from passthrough_not_candidate [OF dist n p]
  have c: "py_str repr first \<notin> set (map fst (snd (fold analyze_node wd (default_mapping, []))))" .
  from trace_chain [OF assms clip_not_passthrough, of 10] k
  have "trace_link_source repr link_ref wd CLIP_TEXT_ENCODE_TYPES 10 = Inr None" by simp
  with l c show "link_polarity repr link_ref wd
              (set (map fst (snd (fold analyze_node wd (default_mapping, []))))) current
              = Inr current"
    by (simp add: link_polarity_def truthy_id_def)
qed

theorem trace_resolves_short_chains_witness:
  "passthrough_chain ex_repr ex_chain (JList [JStr ''r2'', JInt 0]) 9 ''c'' \<and>
   set CLIP_TEXT_ENCODE_TYPES \<inter> set PASSTHROUGH_TYPES = {} \<and>
   trace_link_source ex_repr (JList [JStr ''r2'', JInt 0]) ex_chain CLIP_TEXT_ENCODE_TYPES 10
     = Inr (Some ''c'') \<and>
   passthrough_chain ex_repr ex_chain (JList [JStr ''r1'', JInt 0]) 10 ''c'' \<and>
   trace_link_source ex_repr (JList [JStr ''r1'', JInt 0]) ex_chain CLIP_TEXT_ENCODE_TYPES 10
     = Inr None \<and>
   distinct (map fst ex_chain) \<and>
   set (map fst (snd (fold analyze_node ex_chain (default_mapping, [])))) = {''c''} \<and>
   link_polarity ex_repr (JList [JStr ''r1'', JInt 0]) ex_chain {''c''} None = Inr None"
proof -
  have d: "set CLIP_TEXT_ENCODE_TYPES \<inter> set PASSTHROUGH_TYPES = {}"
    by (simp add: CLIP_TEXT_ENCODE_TYPES_def PASSTHROUGH_TYPES_def)
  have u: "distinct (map fst ex_chain)"
    by (simp add: ex_chain_def)
  have s: "set (map fst (snd (fold analyze_node ex_chain (default_mapping, [])))) = {''c''}"
    by (simp add: ex_chain_def reroute_def eval_classify)
  from trace_resolves_short_chains [OF ex_chain9, of CLIP_TEXT_ENCODE_TYPES] d
  have a: "trace_link_source ex_repr (JList [JStr ''r2'', JInt 0]) ex_chain CLIP_TEXT_ENCODE_TYPES 10
     = Inr (Some ''c'')" by simp
  from trace_resolves_short_chains [OF ex_chain10, of CLIP_TEXT_ENCODE_TYPES None] d u
  have b: "trace_link_source ex_repr (JList [JStr ''r1'', JInt 0]) ex_chain CLIP_TEXT_ENCODE_TYPES 10
     = Inr None"
    and c: "link_polarity ex_repr (JList [JStr ''r1'', JInt 0]) ex_chain
              (set (map fst (snd (fold analyze_node ex_chain (default_mapping, []))))) None
              = Inr None" by simp_all
  from c have c': "link_polarity ex_repr (JList [JStr ''r1'', JInt 0]) ex_chain {''c''} None = Inr None"
    unfolding s .
  from ex_chain9 ex_chain10 d a b u s c' show ?thesis by simp
qed

text \<open>
  Claim C6 as stated fails at a chain of exactly ten passthrough nodes: the tenth hop
  spends the last unit of depth, and the call on the prompt node returns \<^verbatim>\<open>None\<close>.
\<close>
theorem trace_none_on_chain_of_ten:
  "passthrough_chain ex_repr ex_chain (JList [JStr ''r1'', JInt 0]) 10 ''c'' \<and>
   trace_link_source ex_repr (JList [JStr ''r1'', JInt 0]) ex_chain CLIP_TEXT_ENCODE_TYPES 10
     = Inr None"
  by (simp add: eval_trace eval_nat_numeral)

text \<open>
  Claim C7, amended. For a reference that is no list or is the empty list, and for every
  call whose depth budget is used up, the tracer returns \<^verbatim>\<open>None\<close> and raises nothing.
\<close>
theorem trace_none_on_bad_reference:
  "max_depth \<le> 0 \<or> (\<forall>xs. link_ref \<noteq> JList xs) \<or> link_ref = JList [] \<Longrightarrow>
   trace_link_source repr link_ref wd target_types max_depth = Inr None"
  by (cases link_ref) (auto split: list.splits)

theorem trace_none_on_bad_reference_witness:
  "trace_link_source ex_repr (JList [JStr ''6'', JInt 0]) ex_template CLIP_TEXT_ENCODE_TYPES 0
     = Inr None \<and>
   trace_link_source ex_repr (JStr ''6'') ex_template CLIP_TEXT_ENCODE_TYPES 10 = Inr None \<and>
   trace_link_source ex_repr (JList []) ex_template CLIP_TEXT_ENCODE_TYPES 10 = Inr None"
  using trace_none_on_bad_reference [of 0 "JList [JStr ''6'', JInt 0]" ex_repr ex_template CLIP_TEXT_ENCODE_TYPES]
    trace_none_on_bad_reference [of 10 "JStr ''6''" ex_repr ex_template CLIP_TEXT_ENCODE_TYPES]
    trace_none_on_bad_reference [of 10 "JList []" ex_repr ex_template CLIP_TEXT_ENCODE_TYPES]
  by simp

text \<open>
  Claim C7 as stated fails on a reference of one element, which is no source and slot
  pair: the tracer resolves it like a pair.
\<close>
theorem trace_resolves_one_element_reference:
  "trace_link_source ex_repr (JList [JStr ''6'']) ex_template CLIP_TEXT_ENCODE_TYPES 10
     = Inr (Some ''6'')"
  by (simp add: ex_template_def dict_get_def in_types_def CLIP_TEXT_ENCODE_TYPES_def)


end
